theory Spec2Isabelle
  imports Main "HOL-Library.Word" "HOL-Library.Sublist"
begin

section \<open>JavaScript values used by the two modules\<close>

text \<open>
  A JavaScript string is a sequence of 16-bit UTF-16 code units. A source literal is
  written \<open>js ''...''\<close>. A string is falsy exactly when it is empty, so the source's
  \<open>!s\<close> is \<open>s = []\<close>.
\<close>

type_synonym jsstring = "16 word list"

text \<open>The code unit with a given number, and a string literal.\<close>

definition code_unit :: "nat \<Rightarrow> 16 word" where
  "code_unit n = of_nat n"

definition js :: "string \<Rightarrow> jsstring" where
  "js s = map (\<lambda>c. code_unit (of_char c)) s"

text \<open>
  Exceptions are values. A computation that may log to the console or throw takes the
  console (the list of \<open>console.error\<close> calls so far, oldest first) and returns its
  outcome with the console after it: \<open>Inl e\<close> is a throw (or a rejected promise),
  \<open>Inr v\<close> a normal return (or a fulfilled promise).
\<close>

datatype js_error =
  URIError | InvalidCharacterError | ReferenceError | TypeError | OperationError

type_synonym console = "(jsstring \<times> js_error) list"

type_synonym 'a js = "console \<Rightarrow> (js_error + 'a) \<times> console"

definition js_return :: "'a \<Rightarrow> 'a js" where
  "js_return v = (\<lambda>k. (Inr v, k))"

definition js_lift :: "js_error + 'a \<Rightarrow> 'a js" where
  "js_lift r = (\<lambda>k. (r, k))"

definition js_bind :: "'a js \<Rightarrow> ('a \<Rightarrow> 'b js) \<Rightarrow> 'b js" where
  "js_bind m f = (\<lambda>k. case m k of (Inl e, k') \<Rightarrow> (Inl e, k') | (Inr v, k') \<Rightarrow> f v k')"

definition js_try :: "'a js \<Rightarrow> (js_error \<Rightarrow> 'a js) \<Rightarrow> 'a js" where
  "js_try m h = (\<lambda>k. case m k of (Inl e, k') \<Rightarrow> h e k' | (Inr v, k') \<Rightarrow> (Inr v, k'))"

definition console_error :: "jsstring \<Rightarrow> js_error \<Rightarrow> unit js" where
  "console_error msg e = (\<lambda>k. (Inr (), k @ [(msg, e)]))"

section \<open>Platform functions called by client-encryption.ts\<close>

text \<open>
  \<open>encodeURIComponent\<close>, \<open>decodeURIComponent\<close>, \<open>btoa\<close> and \<open>atob\<close> belong to the
  platform, not to the repository. They are written out here after their standards
  (ECMA-262, abstract operations Encode and Decode; the WHATWG definitions of \<open>btoa\<close> and
  \<open>atob\<close> with the Infra standard's forgiving-base64 decode), on code units and
  octets read as natural numbers.
\<close>

definition is_high_surrogate :: "16 word \<Rightarrow> bool" where
  "is_high_surrogate c = (0xD800 \<le> unat c \<and> unat c \<le> 0xDBFF)"

definition is_low_surrogate :: "16 word \<Rightarrow> bool" where
  "is_low_surrogate c = (0xDC00 \<le> unat c \<and> unat c \<le> 0xDFFF)"

text \<open>The characters \<open>encodeURIComponent\<close> leaves alone: ASCII letters, digits and
  \<open>- _ . ! ~ * ' ( )\<close>.\<close>

definition uri_unreserved :: "16 word \<Rightarrow> bool" where
  "uri_unreserved c =
     ((0x41 \<le> unat c \<and> unat c \<le> 0x5A) \<or> (0x61 \<le> unat c \<and> unat c \<le> 0x7A)
      \<or> (0x30 \<le> unat c \<and> unat c \<le> 0x39)
      \<or> unat c \<in> {0x2D, 0x5F, 0x2E, 0x21, 0x7E, 0x2A, 0x27, 0x28, 0x29})"

definition utf8_octets :: "nat \<Rightarrow> nat list" where
  "utf8_octets cp =
     (if cp < 0x80 then [cp]
      else if cp < 0x800 then [0xC0 + cp div 64, 0x80 + cp mod 64]
      else if cp < 0x10000 then
        [0xE0 + cp div 4096, 0x80 + (cp div 64) mod 64, 0x80 + cp mod 64]
      else
        [0xF0 + cp div 262144, 0x80 + (cp div 4096) mod 64,
         0x80 + (cp div 64) mod 64, 0x80 + cp mod 64])"

definition hex_upper :: "nat \<Rightarrow> 16 word" where
  "hex_upper d = (if d < 10 then code_unit (0x30 + d) else code_unit (0x41 + (d - 10)))"

definition percent_escape :: "nat \<Rightarrow> jsstring" where
  "percent_escape b = [0x25, hex_upper (b div 16), hex_upper (b mod 16)]"

definition escape_octets :: "nat list \<Rightarrow> jsstring" where
  "escape_octets bs = concat (map percent_escape bs)"

definition code_point_of_pair :: "16 word \<Rightarrow> 16 word \<Rightarrow> nat" where
  "code_point_of_pair hi lo = (unat hi - 0xD800) * 0x400 + (unat lo - 0xDC00) + 0x10000"

text \<open>
  Encode: an unreserved code unit is copied; otherwise the code point at this position
  is read (a lone surrogate throws URIError) and its UTF-8 octets are escaped.
\<close>

fun Encode :: "jsstring \<Rightarrow> js_error + jsstring" where
  "Encode [] = Inr []"
| "Encode (c # cs) =
     (if uri_unreserved c then
        (case Encode cs of Inl e \<Rightarrow> Inl e | Inr r \<Rightarrow> Inr (c # r))
      else if is_low_surrogate c then Inl URIError
      else if is_high_surrogate c then
        (case cs of
           [] \<Rightarrow> Inl URIError
         | d # ds \<Rightarrow>
             if is_low_surrogate d then
               (case Encode ds of
                  Inl e \<Rightarrow> Inl e
                | Inr r \<Rightarrow> Inr (escape_octets (utf8_octets (code_point_of_pair c d)) @ r))
             else Inl URIError)
      else
        (case Encode cs of
           Inl e \<Rightarrow> Inl e
         | Inr r \<Rightarrow> Inr (escape_octets (utf8_octets (unat c)) @ r)))"

definition encodeURIComponent :: "jsstring \<Rightarrow> js_error + jsstring" where
  "encodeURIComponent s = Encode s"

text \<open>
  The strings on which Encode does not throw: every high surrogate is followed by a
  low surrogate, and no low surrogate stands alone.
\<close>

fun well_formed_utf16 :: "jsstring \<Rightarrow> bool" where
  "well_formed_utf16 [] = True"
| "well_formed_utf16 (c # cs) =
     (if is_high_surrogate c then
        (case cs of [] \<Rightarrow> False | d # ds \<Rightarrow> is_low_surrogate d \<and> well_formed_utf16 ds)
      else \<not> is_low_surrogate c \<and> well_formed_utf16 cs)"

definition hex_value :: "16 word \<Rightarrow> nat option" where
  "hex_value c =
     (if 0x30 \<le> unat c \<and> unat c \<le> 0x39 then Some (unat c - 0x30)
      else if 0x41 \<le> unat c \<and> unat c \<le> 0x46 then Some (unat c - 0x41 + 10)
      else if 0x61 \<le> unat c \<and> unat c \<le> 0x66 then Some (unat c - 0x61 + 10)
      else None)"

definition parse_hex_octet :: "16 word \<Rightarrow> 16 word \<Rightarrow> nat option" where
  "parse_hex_octet h1 h2 =
     (case hex_value h1 of
        None \<Rightarrow> None
      | Some a \<Rightarrow> (case hex_value h2 of None \<Rightarrow> None | Some b \<Rightarrow> Some (a * 16 + b)))"

text \<open>The number of leading 1 bits of an octet; 5 stands for "5 or more".\<close>

definition leading_ones :: "nat \<Rightarrow> nat" where
  "leading_ones b =
     (if b < 0x80 then 0 else if b < 0xC0 then 1 else if b < 0xE0 then 2
      else if b < 0xF0 then 3 else if b < 0xF8 then 4 else 5)"

text \<open>Reads \<open>n\<close> further escapes \<open>%XX\<close>; \<open>None\<close> where Decode throws.\<close>

fun take_escapes :: "nat \<Rightarrow> jsstring \<Rightarrow> (nat list \<times> jsstring) option" where
  "take_escapes 0 s = Some ([], s)"
| "take_escapes (Suc n) (p # h1 # h2 # rest) =
     (if p = 0x25 then
        (case parse_hex_octet h1 h2 of
           None \<Rightarrow> None
         | Some b \<Rightarrow>
             (case take_escapes n rest of
                None \<Rightarrow> None
              | Some (bs, r) \<Rightarrow> Some (b # bs, r)))
      else None)"
| "take_escapes (Suc n) s = None"

definition is_continuation :: "nat \<Rightarrow> bool" where
  "is_continuation b = (0x80 \<le> b \<and> b < 0xC0)"

text \<open>
  The code point of a multi-octet UTF-8 sequence, \<open>None\<close> unless the sequence is
  well-formed: continuation octets of the form 10xxxxxx, shortest form, no surrogate,
  at most U+10FFFF.
\<close>

fun utf8_decode :: "nat list \<Rightarrow> nat option" where
  "utf8_decode [b0, b1] =
     (let cp = (b0 - 0xC0) * 64 + (b1 - 0x80)
      in if is_continuation b1 \<and> 0x80 \<le> cp then Some cp else None)"
| "utf8_decode [b0, b1, b2] =
     (let cp = (b0 - 0xE0) * 4096 + (b1 - 0x80) * 64 + (b2 - 0x80)
      in if is_continuation b1 \<and> is_continuation b2 \<and> 0x800 \<le> cp
            \<and> (cp < 0xD800 \<or> 0xDFFF < cp)
         then Some cp else None)"
| "utf8_decode [b0, b1, b2, b3] =
     (let cp = (b0 - 0xF0) * 262144 + (b1 - 0x80) * 4096 + (b2 - 0x80) * 64 + (b3 - 0x80)
      in if is_continuation b1 \<and> is_continuation b2 \<and> is_continuation b3
            \<and> 0x10000 \<le> cp \<and> cp \<le> 0x10FFFF
         then Some cp else None)"
| "utf8_decode bs = None"

definition utf16_encode :: "nat \<Rightarrow> jsstring" where
  "utf16_encode cp =
     (if cp < 0x10000 then [code_unit cp]
      else [code_unit (0xD800 + (cp - 0x10000) div 0x400),
            code_unit (0xDC00 + (cp - 0x10000) mod 0x400)])"

lemma take_escapes_length:
  "take_escapes n s = Some (bs, r) \<Longrightarrow> length r \<le> length s"
proof (induction n s arbitrary: bs r rule: take_escapes.induct)
  case (2 n p h1 h2 rest)
  then show ?case
    by (fastforce split: if_splits option.splits)
qed simp_all

text \<open>
  Decode: a code unit other than \<open>%\<close> is copied; \<open>%XX\<close> with a first octet below 0x80
  is that character; otherwise the first octet announces \<open>n\<close> octets, the further
  \<open>n - 1\<close> escapes are read and the sequence must be well-formed UTF-8. Every failure
  throws URIError.
\<close>

function Decode :: "jsstring \<Rightarrow> js_error + jsstring" where
  "Decode [] = Inr []"
| "Decode (c # cs) =
     (if c \<noteq> 0x25 then
        (case Decode cs of Inl e \<Rightarrow> Inl e | Inr r \<Rightarrow> Inr (c # r))
      else
        (case cs of
           h1 # h2 # rest \<Rightarrow>
             (case parse_hex_octet h1 h2 of
                None \<Rightarrow> Inl URIError
              | Some b \<Rightarrow>
                  if leading_ones b = 0 then
                    (case Decode rest of Inl e \<Rightarrow> Inl e | Inr r \<Rightarrow> Inr (code_unit b # r))
                  else if leading_ones b = 1 \<or> leading_ones b > 4 then Inl URIError
                  else
                    (case take_escapes (leading_ones b - 1) rest of
                       None \<Rightarrow> Inl URIError
                     | Some (bs, rest') \<Rightarrow>
                         (case utf8_decode (b # bs) of
                            None \<Rightarrow> Inl URIError
                          | Some cp \<Rightarrow>
                              (case Decode rest' of
                                 Inl e \<Rightarrow> Inl e
                               | Inr r \<Rightarrow> Inr (utf16_encode cp @ r)))))
         | _ \<Rightarrow> Inl URIError))"
  by pat_completeness auto
termination
  by (relation "measure length") (auto dest: take_escapes_length)

definition decodeURIComponent :: "jsstring \<Rightarrow> js_error + jsstring" where
  "decodeURIComponent s = Decode s"

text \<open>The base64 alphabet: \<open>A-Z a-z 0-9 + /\<close> for the values 0 to 63.\<close>

definition b64_char :: "nat \<Rightarrow> 16 word" where
  "b64_char v =
     (if v < 26 then code_unit (0x41 + v)
      else if v < 52 then code_unit (0x61 + (v - 26))
      else if v < 62 then code_unit (0x30 + (v - 52))
      else if v = 62 then code_unit 0x2B else code_unit 0x2F)"

definition b64_value :: "16 word \<Rightarrow> nat option" where
  "b64_value c =
     (if 0x41 \<le> unat c \<and> unat c \<le> 0x5A then Some (unat c - 0x41)
      else if 0x61 \<le> unat c \<and> unat c \<le> 0x7A then Some (unat c - 0x61 + 26)
      else if 0x30 \<le> unat c \<and> unat c \<le> 0x39 then Some (unat c - 0x30 + 52)
      else if unat c = 0x2B then Some 62
      else if unat c = 0x2F then Some 63
      else None)"

fun b64_encode :: "nat list \<Rightarrow> jsstring" where
  "b64_encode [] = []"
| "b64_encode [a] = [b64_char (a div 4), b64_char ((a mod 4) * 16), 0x3D, 0x3D]"
| "b64_encode [a, b] =
     [b64_char (a div 4), b64_char ((a mod 4) * 16 + b div 16),
      b64_char ((b mod 16) * 4), 0x3D]"
| "b64_encode (a # b # c # rest) =
     [b64_char (a div 4), b64_char ((a mod 4) * 16 + b div 16),
      b64_char ((b mod 16) * 4 + c div 64), b64_char (c mod 64)] @ b64_encode rest"

text \<open>\<open>btoa\<close> throws InvalidCharacterError on a code unit above 0xFF.\<close>

definition btoa :: "jsstring \<Rightarrow> js_error + jsstring" where
  "btoa s =
     (if \<exists>c \<in> set s. 0xFF < unat c then Inl InvalidCharacterError
      else Inr (b64_encode (map unat s)))"

definition is_ascii_whitespace :: "16 word \<Rightarrow> bool" where
  "is_ascii_whitespace c = (unat c \<in> {0x09, 0x0A, 0x0C, 0x0D, 0x20})"

text \<open>If the data ends with one or two \<open>=\<close>, they are removed.\<close>

definition strip_padding :: "jsstring \<Rightarrow> jsstring" where
  "strip_padding s =
     (if s \<noteq> [] \<and> last s = 0x3D then
        (if butlast s \<noteq> [] \<and> last (butlast s) = 0x3D then butlast (butlast s)
         else butlast s)
      else s)"

text \<open>
  The 6-bit groups are emptied into octets, 24 bits at a time; of 12 left-over bits
  the last 4 are dropped, of 18 the last 2. A single left-over group cannot occur:
  \<open>atob\<close> has failed before.
\<close>

fun b64_decode :: "nat list \<Rightarrow> nat list" where
  "b64_decode (x # y # z # w # rest) =
     [x * 4 + y div 16, (y mod 16) * 16 + z div 4, (z mod 4) * 64 + w] @ b64_decode rest"
| "b64_decode [x, y, z] = [x * 4 + y div 16, (y mod 16) * 16 + z div 4]"
| "b64_decode [x, y] = [x * 4 + y div 16]"
| "b64_decode _ = []"

text \<open>
  \<open>atob\<close>: forgiving-base64 decode. ASCII whitespace is removed; if the length is then
  a multiple of 4, up to two trailing \<open>=\<close> are removed; a length of 1 modulo 4 or a
  code unit outside the alphabet throws InvalidCharacterError.
\<close>

definition atob :: "jsstring \<Rightarrow> js_error + jsstring" where
  "atob s =
     (let d1 = filter (\<lambda>c. \<not> is_ascii_whitespace c) s;
          d2 = (if length d1 mod 4 = 0 then strip_padding d1 else d1)
      in if length d2 mod 4 = 1 then Inl InvalidCharacterError
         else if \<exists>c \<in> set d2. b64_value c = None then Inl InvalidCharacterError
         else Inr (map code_unit (b64_decode (map (\<lambda>c. the (b64_value c)) d2))))"

section \<open>client-encryption.ts\<close>

text \<open>The two \<open>try\<close> blocks, \<open>btoa(encodeURIComponent(data))\<close> and
  \<open>decodeURIComponent(atob(encoded))\<close>, and the functions around them.\<close>

definition encode_try_block :: "jsstring \<Rightarrow> jsstring js" where
  "encode_try_block data =
     js_bind (js_lift (encodeURIComponent data)) (\<lambda>u. js_lift (btoa u))"

definition decode_try_block :: "jsstring \<Rightarrow> jsstring js" where
  "decode_try_block encoded =
     js_bind (js_lift (atob encoded)) (\<lambda>a. js_lift (decodeURIComponent a))"

definition encodeForTransmission :: "jsstring \<Rightarrow> jsstring js" where
  "encodeForTransmission data =
     (if data = [] then js_return []
      else js_try
             (encode_try_block data)
             (\<lambda>e. js_bind
                     (console_error
                        (js ''[CLIENT_ENCRYPTION] Failed to encode data for transmission'') e)
                     (\<lambda>_. js_return data)))"

definition decodeFromTransmission :: "jsstring \<Rightarrow> jsstring js" where
  "decodeFromTransmission encoded =
     (if encoded = [] then js_return []
      else js_try
             (decode_try_block encoded)
             (\<lambda>e. js_bind
                     (console_error (js ''[CLIENT_ENCRYPTION] Failed to decode data'') e)
                     (\<lambda>_. js_return encoded)))"

text \<open>The regular expression \<open>\D\<close> (no flags) matches every code unit outside \<open>0-9\<close>.\<close>

definition is_digit :: "16 word \<Rightarrow> bool" where
  "is_digit c = (0x30 \<le> unat c \<and> unat c \<le> 0x39)"

definition cleanSSN :: "jsstring \<Rightarrow> jsstring" where
  "cleanSSN ssn = (if ssn = [] then [] else filter is_digit ssn)"

text \<open>\<open>/^(\d)\1{8}$/\<close>: one digit, then the same code unit 8 more times, and nothing else.\<close>

definition nine_repeated_digits :: "jsstring \<Rightarrow> bool" where
  "nine_repeated_digits s =
     (case s of [] \<Rightarrow> False | d # rest \<Rightarrow> is_digit d \<and> rest = replicate 8 d)"

record ssn_result =
  encoded :: jsstring
  error :: "jsstring option"

definition encodeSSNForTransmission :: "jsstring \<Rightarrow> ssn_result js" where
  "encodeSSNForTransmission ssn =
     (if ssn = [] then js_return \<lparr>encoded = [], error = Some (js ''SSN is required'')\<rparr>
      else
        (let cleaned = cleanSSN ssn
         in if length cleaned \<noteq> 9 then
              js_return \<lparr>encoded = [], error = Some (js ''SSN must be 9 digits'')\<rparr>
            else if nine_repeated_digits cleaned then
              js_return \<lparr>encoded = [], error = Some (js ''Invalid SSN format'')\<rparr>
            else
              js_bind (encodeForTransmission cleaned)
                (\<lambda>e. js_return \<lparr>encoded = e, error = None\<rparr>)))"

definition SENSITIVE_FIELDS :: "jsstring list" where
  "SENSITIVE_FIELDS = [js ''ssn'', js ''socialSecurityNumber'', js ''dateOfBirth'']"

text \<open>
  \<open>String.prototype.toLowerCase\<close>. On a string of ASCII code units it maps \<open>A-Z\<close> to
  \<open>a-z\<close> and leaves the rest. On any other string it follows the Unicode case tables,
  which are not part of the repository: they are the parameter \<open>ucd\<close>, and every
  statement below holds for each value of it.
\<close>

definition ascii_lower :: "16 word \<Rightarrow> 16 word" where
  "ascii_lower c = (if 0x41 \<le> unat c \<and> unat c \<le> 0x5A then c + 0x20 else c)"

definition toLowerCase :: "(jsstring \<Rightarrow> jsstring) \<Rightarrow> jsstring \<Rightarrow> jsstring" where
  "toLowerCase ucd s = (if list_all (\<lambda>c. unat c < 0x80) s then map ascii_lower s else ucd s)"

text \<open>\<open>hay.includes(needle)\<close>: \<open>needle\<close> occurs in \<open>hay\<close> as a contiguous run.\<close>

definition js_includes :: "jsstring \<Rightarrow> jsstring \<Rightarrow> bool" where
  "js_includes hay needle = sublist needle hay"

definition isSensitiveField :: "(jsstring \<Rightarrow> jsstring) \<Rightarrow> jsstring \<Rightarrow> bool" where
  "isSensitiveField ucd fieldName =
     list_ex (\<lambda>name. js_includes (toLowerCase ucd fieldName) (toLowerCase ucd name))
       SENSITIVE_FIELDS"

section \<open>signature-service.ts\<close>

record SignatureMetadata =
  timestamp :: jsstring
  ipAddress :: jsstring
  userAgent :: jsstring
  screenResolution :: jsstring
  timezone :: jsstring
  consentGiven :: bool
  signatureValue :: jsstring
  signatureHash :: jsstring
  deviceFingerprint :: jsstring

text \<open>
  The browser as \<open>captureSignatureMetadata\<close> reads it:
  \<^item> the clock, \<open>new Date().toISOString()\<close>;
  \<^item> \<open>navigator\<close> and \<open>Intl\<close>;
  \<^item> \<open>window.screen\<close>, whose \<open>width\<close> and \<open>height\<close> are attributes of the interface
    type \<open>long\<close>: signed 32-bit integers, read with \<open>sint\<close>;
  \<^item> the text \<open>new Date().getTimezoneOffset().toString()\<close>, which the source uses as
    a string only;
  \<^item> the arithmetic of JavaScript numbers where it is not that of the integers:
    \<open>double_product_text a b\<close> is the text of \<open>a * b\<close> computed in doubles, and is
    consulted only when the exact product reaches \<open>2^53\<close> in magnitude;
  \<^item> whether \<open>TextEncoder\<close> exists, and \<open>crypto.subtle.digest('SHA-256', _)\<close> as a
    function from octets to a digest or an error (a rejected promise, or the TypeError
    of a missing \<open>crypto.subtle\<close>).
\<close>

record environment =
  now_iso :: jsstring
  navigator_userAgent :: jsstring
  screen_width :: "32 word"
  screen_height :: "32 word"
  intl_timeZone :: jsstring
  navigator_language :: "jsstring option"
  navigator_platform :: "jsstring option"
  timezoneOffset_text :: jsstring
  double_product_text :: "int \<Rightarrow> int \<Rightarrow> jsstring"
  has_TextEncoder :: bool
  subtle_digest :: "8 word list \<Rightarrow> js_error + 8 word list"

text \<open>
  Number to string on an integer below \<open>2^53\<close> in magnitude: there every integer is a
  JavaScript number and its text is its decimal digits, with \<open>-\<close> before a negative one
  (the exponent form starts at \<open>10^21\<close>). It is applied to 32-bit values and to products
  below \<open>2^53\<close> only.
\<close>

fun decimal :: "nat \<Rightarrow> jsstring" where
  "decimal n = (if n < 10 then [code_unit (0x30 + n)]
                else decimal (n div 10) @ [code_unit (0x30 + n mod 10)])"

declare decimal.simps [simp del]

definition number_to_string :: "int \<Rightarrow> jsstring" where
  "number_to_string i = (if i < 0 then 0x2D # decimal (nat (- i)) else decimal (nat i))"

text \<open>
  \<open>TextEncoder.encode\<close>: UTF-8, with U+FFFD in place of a lone surrogate.
\<close>

fun utf8_encode_lossy :: "jsstring \<Rightarrow> nat list" where
  "utf8_encode_lossy [] = []"
| "utf8_encode_lossy (c # cs) =
     (if is_high_surrogate c then
        (case cs of
           [] \<Rightarrow> utf8_octets 0xFFFD
         | d # ds \<Rightarrow>
             if is_low_surrogate d
             then utf8_octets (code_point_of_pair c d) @ utf8_encode_lossy ds
             else utf8_octets 0xFFFD @ utf8_encode_lossy cs)
      else if is_low_surrogate c then utf8_octets 0xFFFD @ utf8_encode_lossy cs
      else utf8_octets (unat c) @ utf8_encode_lossy cs)"

definition hex_lower :: "nat \<Rightarrow> 16 word" where
  "hex_lower d = (if d < 10 then code_unit (0x30 + d) else code_unit (0x61 + (d - 10)))"

text \<open>\<open>b.toString(16).padStart(2, '0')\<close> for an octet \<open>b\<close>.\<close>

definition byte_hex :: "8 word \<Rightarrow> jsstring" where
  "byte_hex b = [hex_lower (unat b div 16), hex_lower (unat b mod 16)]"

definition hash_try_block :: "environment \<Rightarrow> jsstring \<Rightarrow> jsstring js" where
  "hash_try_block env data =
     (if \<not> has_TextEncoder env then js_lift (Inl ReferenceError)
      else
        (let dataBuffer = map of_nat (utf8_encode_lossy data)
         in js_bind (js_lift (subtle_digest env dataBuffer))
              (\<lambda>hashBuffer. js_return (concat (map byte_hex hashBuffer)))))"

definition hashString :: "environment \<Rightarrow> jsstring \<Rightarrow> jsstring js" where
  "hashString env data =
     js_try (hash_try_block env data)
       (\<lambda>e. js_bind (console_error (js ''[SIGNATURE] Hash failed:'') e)
               (\<lambda>_. js_return (js ''unknown'')))"

definition or_unknown :: "jsstring option \<Rightarrow> jsstring" where
  "or_unknown v = (case v of None \<Rightarrow> js ''unknown''
                   | Some s \<Rightarrow> if s \<noteq> [] then s else js ''unknown'')"

definition or_zero :: "int \<Rightarrow> int" where
  "or_zero n = (if n \<noteq> 0 then n else 0)"

text \<open>
  The text of a product of two integers as JavaScript computes it: below \<open>2^53\<close> the
  double is the exact product; from there on the double rounds and its text is the
  platform's.
\<close>

definition product_to_string :: "(int \<Rightarrow> int \<Rightarrow> jsstring) \<Rightarrow> int \<Rightarrow> int \<Rightarrow> jsstring" where
  "product_to_string large a b =
     (if \<bar>a * b\<bar> < 2 ^ 53 then number_to_string (a * b) else large a b)"

text \<open>\<open>parts.join('|')\<close> on the four parts.\<close>

definition generateDeviceFingerprint :: "environment \<Rightarrow> jsstring" where
  "generateDeviceFingerprint env =
       or_unknown (navigator_language env) @ js ''|''
     @ or_unknown (navigator_platform env) @ js ''|''
     @ timezoneOffset_text env @ js ''|''
     @ product_to_string (double_product_text env)
         (or_zero (sint (screen_width env))) (or_zero (sint (screen_height env)))"

definition captureSignatureMetadata :: "environment \<Rightarrow> jsstring \<Rightarrow> SignatureMetadata js" where
  "captureSignatureMetadata env sv =
     (let ts = now_iso env;
          ua = navigator_userAgent env;
          sr = number_to_string (sint (screen_width env)) @ js ''x''
               @ number_to_string (sint (screen_height env));
          tz = intl_timeZone env
      in js_bind (hashString env (sv @ ts))
           (\<lambda>sh. let df = generateDeviceFingerprint env
                 in js_return
                      \<lparr>timestamp = ts, ipAddress = [], userAgent = ua,
                       screenResolution = sr, timezone = tz, consentGiven = True,
                       signatureValue = sv, signatureHash = sh,
                       deviceFingerprint = df\<rparr>))"

record validation_result =
  valid :: bool
  errors :: "jsstring list"

text \<open>
  \<open>validateSignatureMetadata\<close>: five \<open>if\<close> statements in sequence, each pushing onto
  the same array; the array is threaded through as \<open>push_if\<close> calls in source order.
\<close>

definition push_if :: "bool \<Rightarrow> jsstring \<Rightarrow> jsstring list \<Rightarrow> jsstring list" where
  "push_if c msg errs = (if c then errs @ [msg] else errs)"

definition validateSignatureMetadata :: "'a SignatureMetadata_scheme \<Rightarrow> validation_result" where
  "validateSignatureMetadata metadata =
     (let errs0 = [];
          errs1 = push_if (timestamp metadata = []) (js ''Timestamp missing'') errs0;
          errs2 = push_if (userAgent metadata = []) (js ''User agent missing'') errs1;
          errs3 = push_if (signatureValue metadata = [] \<or> length (signatureValue metadata) < 2)
                    (js ''Signature value invalid'') errs2;
          errs4 = push_if (\<not> consentGiven metadata) (js ''Consent not given'') errs3;
          errs5 = push_if (signatureHash metadata = []) (js ''Signature hash missing'') errs4
      in \<lparr>valid = (length errs5 = 0), errors = errs5\<rparr>)"

text \<open>
  \<open>String.prototype.trim\<close> removes the code units of ECMAScript's WhiteSpace and
  LineTerminator productions from both ends.
\<close>

definition is_js_whitespace :: "16 word \<Rightarrow> bool" where
  "is_js_whitespace c =
     (c \<in> {0x0009, 0x000A, 0x000B, 0x000C, 0x000D, 0x0020, 0x00A0, 0x1680,
            0x2028, 0x2029, 0x202F, 0x205F, 0x3000, 0xFEFF}
      \<or> (0x2000 \<le> c \<and> c \<le> 0x200A))"

definition trim :: "jsstring \<Rightarrow> jsstring" where
  "trim s = rev (dropWhile is_js_whitespace (rev (dropWhile is_js_whitespace s)))"

definition nl :: jsstring where
  "nl = [0x000A]"

text \<open>
  \<open>formatSignatureMetadata\<close>: the template literal, piece by piece, then \<open>trim\<close> on the
  whole interpolated string, as in the source.
\<close>

definition formatSignatureMetadata :: "'a SignatureMetadata_scheme \<Rightarrow> jsstring" where
  "formatSignatureMetadata metadata =
     trim (nl @ js ''Signature Metadata (ESIGN Act Compliance)''
         @ nl @ js ''==========================================''
         @ nl @ js ''Signed By: '' @ signatureValue metadata
         @ nl @ js ''Timestamp: '' @ timestamp metadata
         @ nl @ js ''Time Zone: '' @ timezone metadata
         @ nl @ js ''IP Address: ''
              @ (if ipAddress metadata \<noteq> [] then ipAddress metadata else js ''pending'')
         @ nl @ js ''Device: '' @ screenResolution metadata
         @ nl @ js ''User Agent: '' @ userAgent metadata
         @ nl @ js ''Device Fingerprint: '' @ deviceFingerprint metadata
         @ nl @ js ''Signature Hash: '' @ signatureHash metadata
         @ nl @ js ''Consent Given: '' @ (if consentGiven metadata then js ''Yes'' else js ''No'')
         @ nl @ js ''  '')"

section \<open>Properties of signature-service.ts\<close>

lemma js_eq_Nil [simp]: "js s = [] \<longleftrightarrow> s = []"
  by (simp add: js_def)

lemma length_js [simp]: "length (js s) = length s"
  by (simp add: js_def)

lemma code_unit_numeral [simp]:
  "code_unit 0 = 0" "code_unit 1 = 1" "code_unit (numeral n) = numeral n"
  by (simp_all add: code_unit_def)

lemma unat_code_unit: "unat (code_unit (of_char c)) = of_char c"
proof -
  have "(of_char c :: nat) < 256"
    by (cases c) simp
  moreover have "(256::nat) \<le> 2 ^ LENGTH(16)"
    by simp
  ultimately have "(of_char c :: nat) < 2 ^ LENGTH(16)"
    by (rule less_le_trans)
  then show ?thesis
    by (simp only: code_unit_def unat_of_nat mod_less)
qed

lemma js_eq_iff [simp]: "js s = js t \<longleftrightarrow> s = t"
proof
  assume "js s = js t"
  then have "map unat (js s) = map unat (js t)"
    by simp
  then have "map (of_char :: char \<Rightarrow> nat) s = map of_char t"
    unfolding js_def map_map comp_def by (simp only: unat_code_unit)
  then show "s = t"
    by (simp add: inj_map_eq_map inj_of_char)
qed simp

lemma errors_validate:
  "errors (validateSignatureMetadata m) =
       (if timestamp m = [] then [js ''Timestamp missing''] else [])
     @ (if userAgent m = [] then [js ''User agent missing''] else [])
     @ (if signatureValue m = [] \<or> length (signatureValue m) < 2
        then [js ''Signature value invalid''] else [])
     @ (if consentGiven m then [] else [js ''Consent not given''])
     @ (if signatureHash m = [] then [js ''Signature hash missing''] else [])"
  by (simp add: validateSignatureMetadata_def push_if_def)

lemma valid_validate:
  "valid (validateSignatureMetadata m) \<longleftrightarrow> errors (validateSignatureMetadata m) = []"
  by (simp add: validateSignatureMetadata_def Let_def)

text \<open>
  C1. \<open>validateSignatureMetadata\<close> returns the failure reasons of all five checks, each
  decided on its own field and none skipped because an earlier one failed, in the order
  'Timestamp missing', 'User agent missing', 'Signature value invalid',
  'Consent not given', 'Signature hash missing'. A reason is in the list exactly when
  its field fails: timestamp empty, userAgent empty, signatureValue empty or shorter than
  2 code units, consentGiven false, signatureHash empty. The valid flag is true exactly
  when the list is empty.
\<close>

theorem validate_collects_all_reasons:
  "errors (validateSignatureMetadata m) =
       (if timestamp m = [] then [js ''Timestamp missing''] else [])
     @ (if userAgent m = [] then [js ''User agent missing''] else [])
     @ (if signatureValue m = [] \<or> length (signatureValue m) < 2
        then [js ''Signature value invalid''] else [])
     @ (if consentGiven m then [] else [js ''Consent not given''])
     @ (if signatureHash m = [] then [js ''Signature hash missing''] else [])
   \<and> (js ''Timestamp missing'' \<in> set (errors (validateSignatureMetadata m))) = (timestamp m = [])
   \<and> (js ''User agent missing'' \<in> set (errors (validateSignatureMetadata m))) = (userAgent m = [])
   \<and> (js ''Signature value invalid'' \<in> set (errors (validateSignatureMetadata m)))
       = (signatureValue m = [] \<or> length (signatureValue m) < 2)
   \<and> (js ''Consent not given'' \<in> set (errors (validateSignatureMetadata m)))
       = (consentGiven m = False)
   \<and> (js ''Signature hash missing'' \<in> set (errors (validateSignatureMetadata m)))
       = (signatureHash m = [])
   \<and> valid (validateSignatureMetadata m) = (errors (validateSignatureMetadata m) = [])"
proof -
  let ?e = "errors (validateSignatureMetadata m)"
  have t: "(js ''Timestamp missing'' \<in> set ?e) = (timestamp m = [])"
    by (simp add: errors_validate)
  have u: "(js ''User agent missing'' \<in> set ?e) = (userAgent m = [])"
    by (simp add: errors_validate)
  have v: "(js ''Signature value invalid'' \<in> set ?e)
           = (signatureValue m = [] \<or> length (signatureValue m) < 2)"
    by (simp add: errors_validate)
  have c: "(js ''Consent not given'' \<in> set ?e) = (consentGiven m = False)"
    by (simp add: errors_validate)
  have h: "(js ''Signature hash missing'' \<in> set ?e) = (signatureHash m = [])"
    by (simp add: errors_validate)
  show ?thesis
    using errors_validate [of m] t u v c h valid_validate [of m] by blast
qed

text \<open>
  A record failing the first, third and fourth check, and one failing none: the
  reasons come out in source order, and the second and fifth are absent.
\<close>

theorem validate_collects_all_reasons_witness:
  "errors (validateSignatureMetadata
      \<lparr>timestamp = [], ipAddress = [], userAgent = js ''UA'', screenResolution = js ''1x1'',
       timezone = js ''UTC'', consentGiven = False, signatureValue = js ''J'',
       signatureHash = js ''ab'', deviceFingerprint = []\<rparr>)
     = [js ''Timestamp missing'', js ''Signature value invalid'', js ''Consent not given'']"
  using validate_collects_all_reasons
    [of "\<lparr>timestamp = [], ipAddress = [], userAgent = js ''UA'', screenResolution = js ''1x1'',
       timezone = js ''UTC'', consentGiven = False, signatureValue = js ''J'',
       signatureHash = js ''ab'', deviceFingerprint = []\<rparr>"]
  by simp

text \<open>
  C6. A record whose signatureHash is the sentinel \<open>unknown\<close>, whose timestamp and
  userAgent are non-empty, whose signatureValue has at least 2 code units and whose
  consentGiven is true, validates: valid is true and the errors list is empty.
\<close>

theorem validate_accepts_sentinel_hash:
  assumes "signatureHash m = js ''unknown''"
    and "timestamp m \<noteq> []" and "userAgent m \<noteq> []"
    and "2 \<le> length (signatureValue m)" and "consentGiven m"
  shows "validateSignatureMetadata m = \<lparr>valid = True, errors = []\<rparr>"
proof -
  have "signatureValue m \<noteq> []"
    using assms(4) by auto
  moreover have "signatureHash m \<noteq> []"
    using assms(1) by simp
  ultimately show ?thesis
    using assms by (simp add: validateSignatureMetadata_def push_if_def)
qed

theorem validate_accepts_sentinel_hash_witness:
  "validateSignatureMetadata
      \<lparr>timestamp = js ''2024-01-01T00:00:00.000Z'', ipAddress = [], userAgent = js ''UA'',
       screenResolution = js ''1x1'', timezone = js ''UTC'', consentGiven = True,
       signatureValue = js ''Jo'', signatureHash = js ''unknown'', deviceFingerprint = []\<rparr>
     = \<lparr>valid = True, errors = []\<rparr>"
  by (rule validate_accepts_sentinel_hash) simp_all

text \<open>
  The rendering: \<open>trim\<close> removes the line break before the heading and the line break
  and two spaces after the consent line, and nothing of the fields.
\<close>

lemma trim_core:
  assumes "s \<noteq> []" and "\<not> is_js_whitespace (hd s)" and "\<not> is_js_whitespace (last s)"
    and "\<forall>c \<in> set pre. is_js_whitespace c" and "\<forall>c \<in> set post. is_js_whitespace c"
  shows "trim (pre @ s @ post) = s"
proof -
  have front: "dropWhile is_js_whitespace (pre @ s @ post) = s @ post"
    using assms(1,2,4) by (cases s) (simp_all add: dropWhile_append)
  have "dropWhile is_js_whitespace (rev post @ rev s) = rev s"
    using assms(1,3,5) by (cases s rule: rev_cases) (simp_all add: dropWhile_append)
  then show ?thesis
    by (simp add: trim_def front)
qed

lemma formatSignatureMetadata_rendering:
  "formatSignatureMetadata m =
     js ''Signature Metadata (ESIGN Act Compliance)''
     @ nl @ js ''==========================================''
     @ nl @ js ''Signed By: '' @ signatureValue m
     @ nl @ js ''Timestamp: '' @ timestamp m
     @ nl @ js ''Time Zone: '' @ timezone m
     @ nl @ js ''IP Address: '' @ (if ipAddress m \<noteq> [] then ipAddress m else js ''pending'')
     @ nl @ js ''Device: '' @ screenResolution m
     @ nl @ js ''User Agent: '' @ userAgent m
     @ nl @ js ''Device Fingerprint: '' @ deviceFingerprint m
     @ nl @ js ''Signature Hash: '' @ signatureHash m
     @ nl @ js ''Consent Given: '' @ (if consentGiven m then js ''Yes'' else js ''No'')"
  (is "_ = ?s")
proof -
  have "?s \<noteq> []"
    by (simp add: js_def)
  moreover have "\<not> is_js_whitespace (hd ?s)"
    by (simp add: js_def is_js_whitespace_def)
  moreover have "\<not> is_js_whitespace (last ?s)"
    by (simp add: js_def nl_def is_js_whitespace_def)
  moreover have "\<forall>c \<in> set nl. is_js_whitespace c"
    by (simp add: nl_def is_js_whitespace_def)
  moreover have "\<forall>c \<in> set (nl @ js ''  ''). is_js_whitespace c"
    by (simp add: js_def nl_def is_js_whitespace_def)
  ultimately have "trim (nl @ ?s @ (nl @ js ''  '')) = ?s"
    by (rule trim_core)
  then show ?thesis
    by (simp add: formatSignatureMetadata_def)
qed

text \<open>
  C8. \<open>formatSignatureMetadata\<close> is a function of the nine fields of its argument
  alone: two records that agree on every field (whatever else they carry) are rendered
  to the same sequence of code units.
\<close>

theorem format_depends_only_on_fields:
  assumes "signatureValue m1 = signatureValue m2" and "timestamp m1 = timestamp m2"
    and "timezone m1 = timezone m2" and "ipAddress m1 = ipAddress m2"
    and "screenResolution m1 = screenResolution m2" and "userAgent m1 = userAgent m2"
    and "deviceFingerprint m1 = deviceFingerprint m2"
    and "signatureHash m1 = signatureHash m2" and "consentGiven m1 = consentGiven m2"
  shows "formatSignatureMetadata m1 = formatSignatureMetadata m2"
  unfolding formatSignatureMetadata_def by (simp only: assms)

text \<open>A bare record and one carrying an extra property, equal on the nine fields.\<close>

theorem format_depends_only_on_fields_witness:
  "formatSignatureMetadata
      \<lparr>timestamp = js ''T'', ipAddress = [], userAgent = js ''UA'',
       screenResolution = js ''1x1'', timezone = js ''UTC'', consentGiven = True,
       signatureValue = js ''Jo'', signatureHash = js ''ab'', deviceFingerprint = js ''f'',
       \<dots> = True\<rparr>
   = formatSignatureMetadata
      \<lparr>timestamp = js ''T'', ipAddress = [], userAgent = js ''UA'',
       screenResolution = js ''1x1'', timezone = js ''UTC'', consentGiven = True,
       signatureValue = js ''Jo'', signatureHash = js ''ab'', deviceFingerprint = js ''f''\<rparr>"
  by (rule format_depends_only_on_fields) simp_all

section \<open>Properties of client-encryption.ts\<close>

lemmas js_monad_defs = js_return_def js_bind_def js_try_def js_lift_def console_error_def

lemma encodeForTransmission_cases:
  "encodeForTransmission s k =
     (if s = [] then (Inr [], k)
      else case encode_try_block s k of
             (Inr v, k1) \<Rightarrow> (Inr v, k1)
           | (Inl e, k1) \<Rightarrow>
               (Inr s, k1 @ [(js ''[CLIENT_ENCRYPTION] Failed to encode data for transmission'', e)]))"
  by (simp add: encodeForTransmission_def js_monad_defs split: prod.splits sum.splits)

lemma decodeFromTransmission_cases:
  "decodeFromTransmission s k =
     (if s = [] then (Inr [], k)
      else case decode_try_block s k of
             (Inr v, k1) \<Rightarrow> (Inr v, k1)
           | (Inl e, k1) \<Rightarrow>
               (Inr s, k1 @ [(js ''[CLIENT_ENCRYPTION] Failed to decode data'', e)]))"
  by (simp add: decodeFromTransmission_def js_monad_defs split: prod.splits sum.splits)

lemma encode_try_block_empty: "encode_try_block [] k = (Inr [], k)"
  by (simp add: encode_try_block_def js_monad_defs encodeURIComponent_def btoa_def)

lemma decode_try_block_empty: "decode_try_block [] k = (Inr [], k)"
  by (simp add: decode_try_block_def js_monad_defs decodeURIComponent_def atob_def strip_padding_def)



lemma enc_fail: "encode_try_block [0xD800] [] = (Inl URIError, [])"
  by (simp add: encode_try_block_def js_monad_defs encodeURIComponent_def uri_unreserved_def
        is_low_surrogate_def is_high_surrogate_def)
lemma dec_fail: "decode_try_block [0xD800] [] = (Inl InvalidCharacterError, [])"
  by (simp add: decode_try_block_def js_monad_defs atob_def is_ascii_whitespace_def strip_padding_def)
text \<open>
  C7. \<open>encodeForTransmission\<close> and \<open>decodeFromTransmission\<close> return normally on every
  string and every console. When the \<open>try\<close> block throws some \<open>e\<close>, the function
  logs one entry (its message and \<open>e\<close>) and returns its argument unchanged. The empty
  string is mapped to the empty string, with nothing logged.
\<close>

theorem transmission_never_throws:
  "(\<exists>v k'. encodeForTransmission s k = (Inr v, k'))
   \<and> (\<exists>v k'. decodeFromTransmission s k = (Inr v, k'))
   \<and> (\<forall>e k1. encode_try_block s k = (Inl e, k1) \<longrightarrow>
         encodeForTransmission s k =
           (Inr s, k1 @ [(js ''[CLIENT_ENCRYPTION] Failed to encode data for transmission'', e)]))
   \<and> (\<forall>e k1. decode_try_block s k = (Inl e, k1) \<longrightarrow>
         decodeFromTransmission s k =
           (Inr s, k1 @ [(js ''[CLIENT_ENCRYPTION] Failed to decode data'', e)]))
   \<and> encodeForTransmission [] k = (Inr [], k)
   \<and> decodeFromTransmission [] k = (Inr [], k)"
proof (intro conjI allI impI)
  show "\<exists>v k'. encodeForTransmission s k = (Inr v, k')"
    by (simp add: encodeForTransmission_cases split: prod.splits sum.splits)
  show "\<exists>v k'. decodeFromTransmission s k = (Inr v, k')"
    by (simp add: decodeFromTransmission_cases split: prod.splits sum.splits)
  show "encodeForTransmission [] k = (Inr [], k)"
    by (simp add: encodeForTransmission_cases)
  show "decodeFromTransmission [] k = (Inr [], k)"
    by (simp add: decodeFromTransmission_cases)
next
  fix e k1
  assume a: "encode_try_block s k = (Inl e, k1)"
  then have "s \<noteq> []"
    using encode_try_block_empty [of k] by auto
  with a show "encodeForTransmission s k =
           (Inr s, k1 @ [(js ''[CLIENT_ENCRYPTION] Failed to encode data for transmission'', e)])"
    by (simp add: encodeForTransmission_cases)
next
  fix e k1
  assume a: "decode_try_block s k = (Inl e, k1)"
  then have "s \<noteq> []"
    using decode_try_block_empty [of k] by auto
  with a show "decodeFromTransmission s k =
           (Inr s, k1 @ [(js ''[CLIENT_ENCRYPTION] Failed to decode data'', e)])"
    by (simp add: decodeFromTransmission_cases)
qed

text \<open>A lone surrogate makes both \<open>try\<close> blocks throw.\<close>

theorem transmission_never_throws_witness:
  "encodeForTransmission [0xD800] [] =
     (Inr [0xD800], [(js ''[CLIENT_ENCRYPTION] Failed to encode data for transmission'', URIError)])
   \<and> decodeFromTransmission [0xD800] [] =
     (Inr [0xD800], [(js ''[CLIENT_ENCRYPTION] Failed to decode data'', InvalidCharacterError)])"
  using transmission_never_throws [of "[0xD800]" "[]"] enc_fail dec_fail
  by simp

lemma cleanSSN_filter: "cleanSSN ssn = filter is_digit ssn"
  by (simp add: cleanSSN_def)

lemma Encode_unreserved: "list_all uri_unreserved s \<Longrightarrow> Encode s = Inr s"
  by (induction s) simp_all

lemma is_digit_unreserved: "is_digit c \<Longrightarrow> uri_unreserved c"
  by (simp add: is_digit_def uri_unreserved_def)

lemma b64_encode_eq_Nil [simp]: "b64_encode bs = [] \<longleftrightarrow> bs = []"
  by (cases bs rule: b64_encode.cases) simp_all

lemma encodeForTransmission_digits:
  assumes "list_all is_digit s"
  shows "encodeForTransmission s k = (Inr (b64_encode (map unat s)), k)"
proof -
  have enc: "encodeURIComponent s = Inr s"
    using assms unfolding encodeURIComponent_def
    by (intro Encode_unreserved) (simp add: list_all_iff is_digit_unreserved)
  have "\<forall>c \<in> set s. \<not> 0xFF < unat c"
    using assms by (auto simp: list_all_iff is_digit_def)
  then have "btoa s = Inr (b64_encode (map unat s))"
    by (simp add: btoa_def)
  with enc show ?thesis
    by (simp add: encodeForTransmission_cases encode_try_block_def js_monad_defs)
qed

lemma nine_repeated_digits_iff:
  assumes "length s = 9" and "list_all is_digit s"
  shows "nine_repeated_digits s \<longleftrightarrow> list_all (\<lambda>c. c = hd s) s"
proof (cases s)
  case Nil
  with assms show ?thesis by simp
next
  case (Cons d rest)
  with assms have len: "length rest = 8" and dig: "is_digit d"
    by simp_all
  have "rest = replicate 8 d \<longleftrightarrow> (\<forall>c \<in> set rest. c = d)"
  proof
    assume "rest = replicate 8 d"
    then have "set rest \<subseteq> {d}"
      by (metis set_replicate_conv_if empty_subsetI subset_refl)
    then show "\<forall>c \<in> set rest. c = d"
      by auto
  next
    assume "\<forall>c \<in> set rest. c = d"
    then have "replicate (length rest) d = rest"
      by (rule replicate_length_same)
    with len show "rest = replicate 8 d"
      by simp
  qed
  with Cons dig show ?thesis
    by (simp add: nine_repeated_digits_def list_all_iff)
qed

text \<open>
  C4. \<open>encodeSSNForTransmission\<close> always returns a result \<open>r\<close>, which is: for the
  empty input, no encoding and the error 'SSN is required'; otherwise, if the input
  stripped of its non-digits has a length other than 9, no encoding and 'SSN must be 9
  digits'; otherwise, if the 9 digits are all the same, no encoding and 'Invalid SSN
  format'; otherwise the value of \<open>encodeForTransmission\<close> on the stripped input, and no
  error. In every case an error is present exactly when the encoding is empty.
\<close>

theorem encodeSSN_behaviour:
  "\<exists>r k'. encodeSSNForTransmission ssn k = (Inr r, k')
     \<and> (if ssn = [] then
           r = \<lparr>encoded = [], error = Some (js ''SSN is required'')\<rparr> \<and> k' = k
         else if length (cleanSSN ssn) \<noteq> 9 then
           r = \<lparr>encoded = [], error = Some (js ''SSN must be 9 digits'')\<rparr> \<and> k' = k
         else if list_all (\<lambda>c. c = hd (cleanSSN ssn)) (cleanSSN ssn) then
           r = \<lparr>encoded = [], error = Some (js ''Invalid SSN format'')\<rparr> \<and> k' = k
         else
           encodeForTransmission (cleanSSN ssn) k = (Inr (encoded r), k') \<and> error r = None)
     \<and> ((error r \<noteq> None) = (encoded r = []))"
proof -
  let ?c = "cleanSSN ssn"
  have dig: "list_all is_digit ?c"
    by (simp add: cleanSSN_filter list_all_iff)
  show ?thesis
  proof (cases "ssn = [] \<or> length ?c \<noteq> 9 \<or> nine_repeated_digits ?c")
    case True
    then show ?thesis
      using nine_repeated_digits_iff [OF _ dig]
      by (auto simp: encodeSSNForTransmission_def js_monad_defs Let_def)
  next
    case False
    then have len: "length ?c = 9" and ne: "ssn \<noteq> []" and nr: "\<not> nine_repeated_digits ?c"
      by simp_all
    have rep: "\<not> list_all (\<lambda>c. c = hd ?c) ?c"
      using nr nine_repeated_digits_iff [OF len dig] by simp
    have "?c \<noteq> []"
      using len by auto
    then have nonempty: "b64_encode (map unat ?c) \<noteq> []"
      by simp
    have "encodeSSNForTransmission ssn k
          = (Inr \<lparr>encoded = b64_encode (map unat ?c), error = None\<rparr>, k)"
      using len ne nr
      by (simp add: encodeSSNForTransmission_def js_monad_defs Let_def
            encodeForTransmission_digits [OF dig])
    then show ?thesis
      using len ne rep nonempty encodeForTransmission_digits [OF dig, of k] by simp
  qed
qed

text \<open>
  C10. A non-empty input without any digit is answered with 'SSN must be 9 digits' and
  not with 'SSN is required': emptiness is tested on the raw input, before the
  non-digits are stripped.
\<close>

theorem encodeSSN_required_only_for_empty_raw:
  assumes "ssn \<noteq> []" and "\<forall>c \<in> set ssn. \<not> is_digit c"
  shows "encodeSSNForTransmission ssn k
           = (Inr \<lparr>encoded = [], error = Some (js ''SSN must be 9 digits'')\<rparr>, k)
         \<and> encodeSSNForTransmission ssn k
           \<noteq> (Inr \<lparr>encoded = [], error = Some (js ''SSN is required'')\<rparr>, k)"
proof -
  have "filter is_digit ssn = []"
    using assms(2) by (simp add: filter_empty_conv)
  then have "length (cleanSSN ssn) \<noteq> 9"
    by (simp add: cleanSSN_filter)
  with assms(1) show ?thesis
    by (simp add: encodeSSNForTransmission_def js_monad_defs Let_def)
qed

lemma clean_example: "cleanSSN (js ''123-45-6789'') = js ''123456789''"
  by (simp add: cleanSSN_filter js_def is_digit_def)

lemma encode_example:
  "encodeForTransmission (js ''123456789'') [] = (Inr (js ''MTIzNDU2Nzg5''), [])"
proof -
  have "list_all is_digit (js ''123456789'')"
    by (simp add: js_def is_digit_def)
  then have "encodeForTransmission (js ''123456789'') []
             = (Inr (b64_encode (map unat (js ''123456789''))), [])"
    by (rule encodeForTransmission_digits)
  also have "b64_encode (map unat (js ''123456789'')) = js ''MTIzNDU2Nzg5''"
    by (simp add: js_def b64_char_def)
  finally show ?thesis .
qed

theorem encodeSSN_behaviour_witness:
  "encodeSSNForTransmission (js ''123-45-6789'') []
     = (Inr \<lparr>encoded = js ''MTIzNDU2Nzg5'', error = None\<rparr>, [])"
proof -
  obtain r k' where run: "encodeSSNForTransmission (js ''123-45-6789'') [] = (Inr r, k')"
    and branch:
      "if js ''123-45-6789'' = [] then
         r = \<lparr>encoded = [], error = Some (js ''SSN is required'')\<rparr> \<and> k' = []
       else if length (cleanSSN (js ''123-45-6789'')) \<noteq> 9 then
         r = \<lparr>encoded = [], error = Some (js ''SSN must be 9 digits'')\<rparr> \<and> k' = []
       else if list_all (\<lambda>c. c = hd (cleanSSN (js ''123-45-6789'')))
                 (cleanSSN (js ''123-45-6789'')) then
         r = \<lparr>encoded = [], error = Some (js ''Invalid SSN format'')\<rparr> \<and> k' = []
       else
         encodeForTransmission (cleanSSN (js ''123-45-6789'')) [] = (Inr (encoded r), k')
         \<and> error r = None"
    using encodeSSN_behaviour [of "js ''123-45-6789''" "[]"] by blast
  have "\<not> list_all (\<lambda>c. c = hd (js ''123456789'')) (js ''123456789'')"
    by (simp add: js_def)
  with branch have "encoded r = js ''MTIzNDU2Nzg5''" and "k' = []" and "error r = None"
    by (simp_all add: clean_example encode_example)
  with run show ?thesis
    by simp
qed

theorem encodeSSN_required_only_for_empty_raw_witness:
  "encodeSSNForTransmission (js ''---'') []
     = (Inr \<lparr>encoded = [], error = Some (js ''SSN must be 9 digits'')\<rparr>, [])"
proof -
  have "js ''---'' \<noteq> []" and "\<forall>c \<in> set (js ''---''). \<not> is_digit c"
    by (simp_all add: js_def is_digit_def)
  then show ?thesis
    using encodeSSN_required_only_for_empty_raw [of "js ''---''" "[]"] by blast
qed

lemma toLowerCase_names:
  "toLowerCase ucd (js ''ssn'') = js ''ssn''"
  "toLowerCase ucd (js ''socialSecurityNumber'') = js ''socialsecuritynumber''"
  "toLowerCase ucd (js ''dateOfBirth'') = js ''dateofbirth''"
  by (simp_all add: toLowerCase_def js_def ascii_lower_def)

lemma toLowerCase_examples:
  "toLowerCase ucd (js ''SocialSecurityNumber'') = js ''socialsecuritynumber''"
  "toLowerCase ucd (js ''ssn_value'') = js ''ssn_value''"
  "toLowerCase ucd (js ''email'') = js ''email''"
  by (simp_all add: toLowerCase_def js_def ascii_lower_def)

lemma includes_js: "js_includes (js h) (js n) \<longleftrightarrow> sublist n h"
proof
  assume "js_includes (js h) (js n)"
  then have "sublist (js n) (map (\<lambda>c. code_unit (of_char c)) h)"
    by (simp add: js_includes_def js_def)
  then obtain n' where n': "sublist n' h" and "js n = map (\<lambda>c. code_unit (of_char c)) n'"
    by (rule sublist_map_rightE [elim_format]) blast
  then have "js n = js n'"
    by (simp add: js_def)
  then have "n = n'"
    by simp
  with n' show "sublist n h"
    by simp
next
  assume "sublist n h"
  then show "js_includes (js h) (js n)"
    unfolding js_includes_def js_def by (rule map_mono_sublist)
qed

text \<open>
  C9. \<open>isSensitiveField\<close> is true exactly when the lower-cased field name contains the
  lower-cased form of one of 'ssn', 'socialSecurityNumber', 'dateOfBirth', that is one
  of 'ssn', 'socialsecuritynumber', 'dateofbirth'. It is true for 'SocialSecurityNumber'
  and for 'ssn_value', and false for 'email'.
\<close>

theorem isSensitiveField_iff:
  "(isSensitiveField ucd fieldName \<longleftrightarrow>
      (\<exists>name \<in> {js ''ssn'', js ''socialSecurityNumber'', js ''dateOfBirth''}.
         js_includes (toLowerCase ucd fieldName) (toLowerCase ucd name)))
   \<and> (isSensitiveField ucd fieldName \<longleftrightarrow>
        js_includes (toLowerCase ucd fieldName) (js ''ssn'')
        \<or> js_includes (toLowerCase ucd fieldName) (js ''socialsecuritynumber'')
        \<or> js_includes (toLowerCase ucd fieldName) (js ''dateofbirth''))
   \<and> isSensitiveField ucd (js ''SocialSecurityNumber'')
   \<and> isSensitiveField ucd (js ''ssn_value'')
   \<and> \<not> isSensitiveField ucd (js ''email'')"
proof -
  have general: "isSensitiveField ucd f \<longleftrightarrow>
        js_includes (toLowerCase ucd f) (js ''ssn'')
        \<or> js_includes (toLowerCase ucd f) (js ''socialsecuritynumber'')
        \<or> js_includes (toLowerCase ucd f) (js ''dateofbirth'')" for f
    by (simp add: isSensitiveField_def SENSITIVE_FIELDS_def toLowerCase_names)
  have quantified: "isSensitiveField ucd fieldName \<longleftrightarrow>
      (\<exists>name \<in> {js ''ssn'', js ''socialSecurityNumber'', js ''dateOfBirth''}.
         js_includes (toLowerCase ucd fieldName) (toLowerCase ucd name))"
    by (simp add: isSensitiveField_def SENSITIVE_FIELDS_def)
  have a: "isSensitiveField ucd (js ''SocialSecurityNumber'')"
    by (simp add: general toLowerCase_examples includes_js sublist_code prefix_code)
  have b: "isSensitiveField ucd (js ''ssn_value'')"
    by (simp add: general toLowerCase_examples includes_js sublist_code prefix_code)
  have c: "\<not> isSensitiveField ucd (js ''email'')"
    by (simp add: general toLowerCase_examples includes_js sublist_code prefix_code)
  show ?thesis
    using general [of fieldName] quantified a b c by blast
qed

theorem isSensitiveField_iff_witness:
  "isSensitiveField (\<lambda>s. s) (js ''applicant_DateOfBirth'')
   \<and> js_includes (toLowerCase (\<lambda>s. s) (js ''applicant_DateOfBirth''))
         (toLowerCase (\<lambda>s. s) (js ''dateOfBirth''))"
proof -
  have lower: "toLowerCase (\<lambda>s. s) (js ''applicant_DateOfBirth'') = js ''applicant_dateofbirth''"
    by (simp add: toLowerCase_def js_def ascii_lower_def)
  have "js_includes (js ''applicant_dateofbirth'') (js ''dateofbirth'')"
    by (simp add: includes_js sublist_code prefix_code)
  then show ?thesis
    using isSensitiveField_iff [of "\<lambda>s. s" "js ''applicant_DateOfBirth''"]
    by (simp add: lower toLowerCase_names)
qed



section \<open>The transmission transform and its inverse\<close>

lemma unat_code_unit_small: "n < 65536 \<Longrightarrow> unat (code_unit n) = n"
  by (simp add: code_unit_def unat_of_nat)

lemma code_unit_unat [simp]: "code_unit (unat c) = c"
  by (simp add: code_unit_def)

lemma unat_b64_char:
  "v < 64 \<Longrightarrow> unat (b64_char v) =
     (if v < 26 then 0x41 + v else if v < 52 then 0x61 + (v - 26)
      else if v < 62 then 0x30 + (v - 52) else if v = 62 then 0x2B else 0x2F)"
  unfolding b64_char_def by (simp add: unat_code_unit_small)

lemma b64_value_char: "v < 64 \<Longrightarrow> b64_value (b64_char v) = Some v"
  unfolding b64_value_def by (simp only: unat_b64_char) auto

lemma b64_value_not_padding: "b64_value c = Some v \<Longrightarrow> c \<noteq> 0x3D"
  by (auto simp: b64_value_def split: if_splits)

lemma b64_value_not_whitespace: "b64_value c = Some v \<Longrightarrow> \<not> is_ascii_whitespace c"
  by (auto simp: b64_value_def is_ascii_whitespace_def split: if_splits)

lemma padding_not_whitespace: "\<not> is_ascii_whitespace 0x3D"
  by (simp add: is_ascii_whitespace_def)

lemma b64_decode_group:
  fixes a b c :: nat
  assumes "b < 256" "c < 256"
  shows "(a div 4) * 4 + ((a mod 4) * 16 + b div 16) div 16 = a"
    and "(((a mod 4) * 16 + b div 16) mod 16) * 16 + ((b mod 16) * 4 + c div 64) div 4 = b"
    and "(((b mod 16) * 4 + c div 64) mod 4) * 64 + c mod 64 = c"
  using assms by (simp_all add: div_mult2_eq [symmetric])

lemma b64_decode_tail:
  fixes a b :: nat
  assumes "b < 256"
  shows "(a div 4) * 4 + ((a mod 4) * 16) div 16 = a"
    and "(((a mod 4) * 16 + b div 16) mod 16) * 16 + ((b mod 16) * 4) div 4 = b"
  using assms by (simp_all add: div_mult2_eq [symmetric])

lemma sextet_bounds:
  fixes a b c :: nat
  assumes "a < 256" "b < 256" "c < 256"
  shows "a div 4 < 64" "(a mod 4) * 16 + b div 16 < 64" "(b mod 16) * 4 + c div 64 < 64"
    "c mod 64 < 64" "(a mod 4) * 16 < 64" "(b mod 16) * 4 < 64"
  using assms by auto


lemma b64_decode_one: "b64_decode [a div 4, (a mod 4) * 16] = [a]"
  by (simp add: b64_decode_tail)

lemma b64_decode_two:
  "b < 256 \<Longrightarrow> b64_decode [a div 4, (a mod 4) * 16 + b div 16, (b mod 16) * 4] = [a, b]"
  by (simp add: b64_decode_tail b64_decode_group)

lemma b64_decode_three:
  "b < 256 \<Longrightarrow> c < 256 \<Longrightarrow>
   b64_decode ([a div 4, (a mod 4) * 16 + b div 16, (b mod 16) * 4 + c div 64, c mod 64] @ vs)
     = a # b # c # b64_decode vs"
  by (simp add: b64_decode_group)

lemma b64_encode_shape:
  assumes "\<forall>b \<in> set bs. b < 256"
  shows "\<exists>vs pad. b64_encode bs = map b64_char vs @ pad
           \<and> (\<forall>v \<in> set vs. v < 64)
           \<and> pad \<in> {[], [0x3D], [0x3D, 0x3D]}
           \<and> (length vs + length pad) mod 4 = 0
           \<and> length vs mod 4 \<noteq> 1
           \<and> b64_decode vs = bs"
  using assms
proof (induction bs rule: b64_encode.induct)
  case 1
  have "b64_encode [] = map b64_char [] @ []" by simp
  then show ?case
    by fastforce
next
  case (2 a)
  then have a: "a < 256" by simp
  let ?vs = "[a div 4, (a mod 4) * 16]"
  have "b64_encode [a] = map b64_char ?vs @ [0x3D, 0x3D]"
    by simp
  moreover have "\<forall>v \<in> set ?vs. v < 64"
    using sextet_bounds [of a 0 0] a by simp
  moreover have "(length ?vs + length [0x3D :: 16 word, 0x3D]) mod 4 = 0" "length ?vs mod 4 \<noteq> 1"
    by simp_all
  moreover have "b64_decode ?vs = [a]"
    by (rule b64_decode_one)
  ultimately show ?case
    by (intro exI [of _ ?vs] exI [of _ "[0x3D, 0x3D]"]) blast
next
  case (3 a b)
  then have ab: "a < 256" "b < 256" by simp_all
  let ?vs = "[a div 4, (a mod 4) * 16 + b div 16, (b mod 16) * 4]"
  have "b64_encode [a, b] = map b64_char ?vs @ [0x3D]"
    by simp
  moreover have "\<forall>v \<in> set ?vs. v < 64"
    using sextet_bounds [of a b 0] ab by simp
  moreover have "(length ?vs + length [0x3D :: 16 word]) mod 4 = 0" "length ?vs mod 4 \<noteq> 1"
    by simp_all
  moreover have "b64_decode ?vs = [a, b]"
    using ab by (intro b64_decode_two)
  ultimately show ?case
    by (intro exI [of _ ?vs] exI [of _ "[0x3D]"]) blast
next
  case (4 a b c rest)
  then have abc: "a < 256" "b < 256" "c < 256" and rest: "\<forall>x \<in> set rest. x < 256"
    by simp_all
  from 4(1) [OF rest] obtain vs pad
    where ih: "b64_encode rest = map b64_char vs @ pad" "\<forall>v \<in> set vs. v < 64"
      "pad \<in> {[], [0x3D], [0x3D, 0x3D]}" "(length vs + length pad) mod 4 = 0"
      "length vs mod 4 \<noteq> 1" "b64_decode vs = rest"
    by (elim exE conjE) (rule that)
  let ?g = "[a div 4, (a mod 4) * 16 + b div 16, (b mod 16) * 4 + c div 64, c mod 64]"
  have "b64_encode (a # b # c # rest) = map b64_char (?g @ vs) @ pad"
    using ih(1) by simp
  moreover have "\<forall>v \<in> set (?g @ vs). v < 64"
    using ih(2) sextet_bounds [OF abc] by simp
  moreover have "(length (?g @ vs) + length pad) mod 4 = 0"
    using ih(4) by simp
  moreover have "length (?g @ vs) mod 4 \<noteq> 1"
    using ih(5) by simp
  moreover have "b64_decode (?g @ vs) = a # b # c # rest"
    using ih(6) abc by (simp only: b64_decode_three)
  ultimately show ?case
    using ih(3) by (intro exI [of _ "?g @ vs"] exI [of _ pad]) blast
qed

lemma strip_padding_shape:
  assumes "xs = [] \<or> last xs \<noteq> 0x3D" and "pad \<in> {[], [0x3D], [0x3D, 0x3D]}"
  shows "strip_padding (xs @ pad) = xs"
proof -
  consider "pad = []" | "pad = [0x3D]" | "pad = [0x3D, 0x3D]"
    using assms(2) by blast
  then show ?thesis
  proof cases
    case 1
    with assms(1) show ?thesis
      by (auto simp: strip_padding_def)
  next
    case 2
    with assms(1) show ?thesis
      by (auto simp: strip_padding_def butlast_append)
  next
    case 3
    with assms(1) show ?thesis
      by (auto simp: strip_padding_def butlast_append)
  qed
qed

lemma atob_b64_encode:
  assumes "\<forall>b \<in> set bs. b < 256"
  shows "atob (b64_encode bs) = Inr (map code_unit bs)"
proof -
  from b64_encode_shape [OF assms] obtain vs pad
    where enc: "b64_encode bs = map b64_char vs @ pad" and small: "\<forall>v \<in> set vs. v < 64"
      and pad: "pad \<in> {[], [0x3D], [0x3D, 0x3D]}"
      and len: "(length vs + length pad) mod 4 = 0"
      and len1: "length vs mod 4 \<noteq> 1" and dec: "b64_decode vs = bs"
    by (elim exE conjE) (rule that)
  let ?body = "map b64_char vs"
  have val: "b64_value c = Some (the (b64_value c)) \<and> the (b64_value c) < 64 \<and> c \<noteq> 0x3D
             \<and> \<not> is_ascii_whitespace c" if "c \<in> set ?body" for c
  proof -
    from that obtain v where "v \<in> set vs" and "c = b64_char v"
      by auto
    with small have "b64_value c = Some v" and "v < 64"
      by (simp_all add: b64_value_char)
    then show ?thesis
      using b64_value_not_padding [of c v] b64_value_not_whitespace [of c v] by simp
  qed
  have pad_ws: "\<forall>c \<in> set pad. \<not> is_ascii_whitespace c"
    using pad padding_not_whitespace by auto
  have d1: "filter (\<lambda>c. \<not> is_ascii_whitespace c) (?body @ pad) = ?body @ pad"
    using val pad_ws by (simp add: filter_id_conv)
  have last_body: "?body = [] \<or> last ?body \<noteq> 0x3D"
    using val last_in_set [of ?body] by blast
  have d2: "strip_padding (?body @ pad) = ?body"
    using last_body pad by (rule strip_padding_shape)
  have vals: "map (\<lambda>c. the (b64_value c)) ?body = vs"
    using small by (simp add: b64_value_char map_idI)
  have no_bad: "\<not> (\<exists>c \<in> set ?body. b64_value c = None)"
    using val by (metis option.distinct(1))
  have "atob (?body @ pad) = Inr (map code_unit (b64_decode vs))"
    unfolding atob_def Let_def d1 using len len1 d2 no_bad vals
    by (simp del: set_map map_map)
  then show ?thesis
    by (simp add: enc dec)
qed

lemma atob_btoa:
  assumes "btoa s = Inr t"
  shows "atob t = Inr s"
proof -
  from assms have small: "\<forall>c \<in> set s. \<not> 0xFF < unat c" and t: "t = b64_encode (map unat s)"
    by (auto simp: btoa_def split: if_splits)
  have "\<forall>b \<in> set (map unat s). b < 256"
    using small by auto
  then have "atob (b64_encode (map unat s)) = Inr (map code_unit (map unat s))"
    by (rule atob_b64_encode)
  then show ?thesis
    by (simp add: t comp_def)
qed

lemma unat_hex_upper:
  "d < 16 \<Longrightarrow> unat (hex_upper d) = (if d < 10 then 0x30 + d else 0x41 + (d - 10))"
  unfolding hex_upper_def by (simp add: unat_code_unit_small)

lemma hex_value_upper: "d < 16 \<Longrightarrow> hex_value (hex_upper d) = Some d"
  unfolding hex_value_def by (simp only: unat_hex_upper) auto

lemma parse_hex_octet_escape:
  "b < 256 \<Longrightarrow> parse_hex_octet (hex_upper (b div 16)) (hex_upper (b mod 16)) = Some b"
  by (simp add: parse_hex_octet_def hex_value_upper)

lemma escape_octets_Cons:
  "escape_octets (b # bs) @ r
     = 0x25 # hex_upper (b div 16) # hex_upper (b mod 16) # (escape_octets bs @ r)"
  by (simp add: escape_octets_def percent_escape_def)

lemma escape_octets_Nil: "escape_octets [] @ r = r"
  by (simp add: escape_octets_def)

lemma take_escapes_escape_octets:
  "\<forall>b \<in> set bs. b < 256 \<Longrightarrow>
     take_escapes (length bs) (escape_octets bs @ r) = Some (bs, r)"
  by (induction bs) (simp_all add: escape_octets_Cons escape_octets_Nil parse_hex_octet_escape)

lemma utf8_recompose_three:
  "cp div 4096 * 4096 + cp div 64 mod 64 * 64 + cp mod 64 = (cp::nat)"
proof -
  have "cp mod 4096 = 64 * (cp div 64 mod 64) + cp mod 64"
    using mod_mult2_eq [of cp 64 64] by simp
  moreover have "cp div 4096 * 4096 + cp mod 4096 = cp"
    by simp
  ultimately show ?thesis
    by linarith
qed

lemma utf8_recompose_four:
  "cp div 262144 * 262144 + cp div 4096 mod 64 * 4096 + cp div 64 mod 64 * 64 + cp mod 64
     = (cp::nat)"
proof -
  have "cp mod 4096 = 64 * (cp div 64 mod 64) + cp mod 64"
    using mod_mult2_eq [of cp 64 64] by simp
  moreover have "cp mod 262144 = 4096 * (cp div 4096 mod 64) + cp mod 4096"
    using mod_mult2_eq [of cp 4096 64] by simp
  moreover have "cp div 262144 * 262144 + cp mod 262144 = cp"
    by simp
  ultimately show ?thesis
    by linarith
qed

lemma utf8_two:
  assumes "0x80 \<le> cp" "cp < 0x800"
  shows "leading_ones (0xC0 + cp div 64) = 2"
    and "utf8_decode [0xC0 + cp div 64, 0x80 + cp mod 64] = Some cp"
    and "0xC0 + cp div 64 < 256"
  using assms by (simp_all add: leading_ones_def is_continuation_def)

lemma utf8_three:
  assumes "0x800 \<le> cp" "cp < 0x10000" "cp < 0xD800 \<or> 0xDFFF < cp"
  shows "leading_ones (0xE0 + cp div 4096) = 3"
    and "utf8_decode [0xE0 + cp div 4096, 0x80 + (cp div 64) mod 64, 0x80 + cp mod 64] = Some cp"
    and "0xE0 + cp div 4096 < 256"
proof -
  have v: "cp div 4096 * 4096 + cp div 64 mod 64 * 64 + cp mod 64 = cp"
    by (rule utf8_recompose_three)
  show "leading_ones (0xE0 + cp div 4096) = 3" "0xE0 + cp div 4096 < 256"
    using assms by (simp_all add: leading_ones_def)
  show "utf8_decode [0xE0 + cp div 4096, 0x80 + (cp div 64) mod 64, 0x80 + cp mod 64] = Some cp"
    using assms by (simp add: is_continuation_def v)
qed

lemma utf8_four:
  assumes "0x10000 \<le> cp" "cp \<le> 0x10FFFF"
  shows "leading_ones (0xF0 + cp div 262144) = 4"
    and "utf8_decode [0xF0 + cp div 262144, 0x80 + (cp div 4096) mod 64,
                      0x80 + (cp div 64) mod 64, 0x80 + cp mod 64] = Some cp"
    and "0xF0 + cp div 262144 < 256"
proof -
  have v: "cp div 262144 * 262144 + cp div 4096 mod 64 * 4096 + cp div 64 mod 64 * 64
            + cp mod 64 = cp"
    by (rule utf8_recompose_four)
  show "leading_ones (0xF0 + cp div 262144) = 4" "0xF0 + cp div 262144 < 256"
    using assms by (simp_all add: leading_ones_def)
  show "utf8_decode [0xF0 + cp div 262144, 0x80 + (cp div 4096) mod 64,
                      0x80 + (cp div 64) mod 64, 0x80 + cp mod 64] = Some cp"
    using assms by (simp add: is_continuation_def v)
qed

lemma unat_16_bound: "unat (c :: 16 word) < 65536"
  using unsigned_less [of c, where 'a = nat] by simp

lemma utf16_encode_unit: "utf16_encode (unat c) = [c]"
  using unat_16_bound [of c] by (simp add: utf16_encode_def)

lemma code_point_of_pair_range:
  assumes "is_high_surrogate hi" and "is_low_surrogate lo"
  shows "0x10000 \<le> code_point_of_pair hi lo" and "code_point_of_pair hi lo \<le> 0x10FFFF"
  using assms
  unfolding code_point_of_pair_def is_high_surrogate_def is_low_surrogate_def
  by arith+

lemma utf16_encode_pair:
  assumes "is_high_surrogate hi" and "is_low_surrogate lo"
  shows "utf16_encode (code_point_of_pair hi lo) = [hi, lo]"
proof -
  define h l where "h = unat hi - 0xD800" and "l = unat lo - 0xDC00"
  have hi: "unat hi = 0xD800 + h" and lo: "unat lo = 0xDC00 + l" and l: "l < 0x400"
    using assms unfolding h_def l_def is_high_surrogate_def is_low_surrogate_def
    by arith+
  have cp: "code_point_of_pair hi lo = h * 0x400 + l + 0x10000"
    by (simp add: code_point_of_pair_def h_def l_def)
  have "(h * 0x400 + l) div 0x400 = h" and "(h * 0x400 + l) mod 0x400 = l"
    using l by simp_all
  then have "utf16_encode (code_point_of_pair hi lo)
             = [code_unit (0xD800 + h), code_unit (0xDC00 + l)]"
    unfolding cp utf16_encode_def by simp
  also have "\<dots> = [hi, lo]"
    by (simp only: hi [symmetric] lo [symmetric] code_unit_unat)
  finally show ?thesis .
qed

lemma unreserved_not_percent: "uri_unreserved c \<Longrightarrow> c \<noteq> 0x25"
  by (auto simp: uri_unreserved_def)

lemma continuation_octet_small: "0x80 + x mod 64 < (256::nat)"
proof -
  have "x mod 64 < 64"
    by simp
  then show ?thesis
    by linarith
qed

lemma Decode_single:
  assumes "parse_hex_octet h1 h2 = Some b" and "leading_ones b = 0"
  shows "Decode (0x25 # h1 # h2 # rest)
         = (case Decode rest of Inl e \<Rightarrow> Inl e | Inr r \<Rightarrow> Inr (code_unit b # r))"
  using assms by (simp split: sum.splits)

lemma Decode_multi:
  assumes "parse_hex_octet h1 h2 = Some b"
    and "Suc (length bs) = leading_ones b" and "2 \<le> leading_ones b" and "leading_ones b \<le> 4"
    and "take_escapes (length bs) rest = Some (bs, rest')"
    and "utf8_decode (b # bs) = Some cp"
  shows "Decode (0x25 # h1 # h2 # rest)
         = (case Decode rest' of Inl e \<Rightarrow> Inl e | Inr r \<Rightarrow> Inr (utf16_encode cp @ r))"
proof -
  have n: "leading_ones b - Suc 0 = length bs" "leading_ones b \<noteq> 0"
    "leading_ones b \<noteq> Suc 0" "\<not> 4 < leading_ones b"
    using assms(2,3,4) by linarith+
  show ?thesis
    by (simp add: assms(1,5,6) n del: utf8_decode.simps split: sum.splits)
qed

lemma Decode_escape:
  assumes "cp < 0xD800 \<or> (0xDFFF < cp \<and> cp \<le> 0x10FFFF)"
  shows "Decode (escape_octets (utf8_octets cp) @ r)
         = (case Decode r of Inl e \<Rightarrow> Inl e | Inr r' \<Rightarrow> Inr (utf16_encode cp @ r'))"
proof -
  consider (one) "cp < 0x80" | (two) "0x80 \<le> cp" "cp < 0x800"
    | (three) "0x800 \<le> cp" "cp < 0x10000" | (four) "0x10000 \<le> cp"
    by linarith
  then show ?thesis
  proof cases
    case one
    have "parse_hex_octet (hex_upper (cp div 16)) (hex_upper (cp mod 16)) = Some cp"
      using one by (intro parse_hex_octet_escape) simp
    moreover have "leading_ones cp = 0"
      using one by (simp add: leading_ones_def)
    ultimately have dec: "Decode (0x25 # hex_upper (cp div 16) # hex_upper (cp mod 16) # r)
        = (case Decode r of Inl e \<Rightarrow> Inl e | Inr r' \<Rightarrow> Inr (code_unit cp # r'))"
      by (rule Decode_single)
    have enc: "utf16_encode cp = [code_unit cp]"
      using one by (simp add: utf16_encode_def)
    have esc: "escape_octets (utf8_octets cp) @ r
        = 0x25 # hex_upper (cp div 16) # hex_upper (cp mod 16) # r"
      using one by (simp add: utf8_octets_def escape_octets_Cons escape_octets_Nil)
    show ?thesis
      unfolding esc dec enc by (simp split: sum.splits)
  next
    case two
    let ?b0 = "0xC0 + cp div 64" and ?bs = "[0x80 + cp mod 64]"
    have oct: "utf8_octets cp = ?b0 # ?bs"
      using two by (simp add: utf8_octets_def)
    have "Decode (0x25 # hex_upper (?b0 div 16) # hex_upper (?b0 mod 16)
                  # (escape_octets ?bs @ r))
          = (case Decode r of Inl e \<Rightarrow> Inl e | Inr r' \<Rightarrow> Inr (utf16_encode cp @ r'))"
    proof (rule Decode_multi)
      show "parse_hex_octet (hex_upper (?b0 div 16)) (hex_upper (?b0 mod 16)) = Some ?b0"
        using utf8_two(3) [OF two] by (rule parse_hex_octet_escape)
      show "take_escapes (length ?bs) (escape_octets ?bs @ r) = Some (?bs, r)"
        by (rule take_escapes_escape_octets) (simp add: continuation_octet_small)
      show "Suc (length ?bs) = leading_ones ?b0" "2 \<le> leading_ones ?b0" "leading_ones ?b0 \<le> 4"
        by (simp_all add: utf8_two(1) [OF two])
      show "utf8_decode (?b0 # ?bs) = Some cp"
        by (rule utf8_two(2) [OF two])
    qed
    then show ?thesis
      by (simp only: oct escape_octets_Cons [of ?b0])
  next
    case three
    let ?b0 = "0xE0 + cp div 4096" and ?bs = "[0x80 + (cp div 64) mod 64, 0x80 + cp mod 64]"
    have ns: "cp < 0xD800 \<or> 0xDFFF < cp"
      using assms by linarith
    have oct: "utf8_octets cp = ?b0 # ?bs"
      using three by (simp add: utf8_octets_def)
    have "Decode (0x25 # hex_upper (?b0 div 16) # hex_upper (?b0 mod 16)
                  # (escape_octets ?bs @ r))
          = (case Decode r of Inl e \<Rightarrow> Inl e | Inr r' \<Rightarrow> Inr (utf16_encode cp @ r'))"
    proof (rule Decode_multi)
      show "parse_hex_octet (hex_upper (?b0 div 16)) (hex_upper (?b0 mod 16)) = Some ?b0"
        using utf8_three(3) [OF three ns] by (rule parse_hex_octet_escape)
      show "take_escapes (length ?bs) (escape_octets ?bs @ r) = Some (?bs, r)"
        by (rule take_escapes_escape_octets) (simp add: continuation_octet_small)
      show "Suc (length ?bs) = leading_ones ?b0" "2 \<le> leading_ones ?b0" "leading_ones ?b0 \<le> 4"
        by (simp_all add: utf8_three(1) [OF three ns])
      show "utf8_decode (?b0 # ?bs) = Some cp"
        by (rule utf8_three(2) [OF three ns])
    qed
    then show ?thesis
      by (simp only: oct escape_octets_Cons [of ?b0])
  next
    case four
    let ?b0 = "0xF0 + cp div 262144"
    let ?bs = "[0x80 + (cp div 4096) mod 64, 0x80 + (cp div 64) mod 64, 0x80 + cp mod 64]"
    have le: "cp \<le> 0x10FFFF"
      using assms four by linarith
    have oct: "utf8_octets cp = ?b0 # ?bs"
      using four by (simp add: utf8_octets_def)
    have "Decode (0x25 # hex_upper (?b0 div 16) # hex_upper (?b0 mod 16)
                  # (escape_octets ?bs @ r))
          = (case Decode r of Inl e \<Rightarrow> Inl e | Inr r' \<Rightarrow> Inr (utf16_encode cp @ r'))"
    proof (rule Decode_multi)
      show "parse_hex_octet (hex_upper (?b0 div 16)) (hex_upper (?b0 mod 16)) = Some ?b0"
        using utf8_four(3) [OF four le] by (rule parse_hex_octet_escape)
      show "take_escapes (length ?bs) (escape_octets ?bs @ r) = Some (?bs, r)"
        by (rule take_escapes_escape_octets) (simp add: continuation_octet_small)
      show "Suc (length ?bs) = leading_ones ?b0" "2 \<le> leading_ones ?b0" "leading_ones ?b0 \<le> 4"
        by (simp_all add: utf8_four(1) [OF four le])
      show "utf8_decode (?b0 # ?bs) = Some cp"
        by (rule utf8_four(2) [OF four le])
    qed
    then show ?thesis
      by (simp only: oct escape_octets_Cons [of ?b0])
  qed
qed

lemma unreserved_not_surrogate:
  "uri_unreserved c \<Longrightarrow> \<not> is_high_surrogate c \<and> \<not> is_low_surrogate c"
  by (auto simp: uri_unreserved_def is_high_surrogate_def is_low_surrogate_def)

lemma Encode_succeeds_iff: "(\<exists>r. Encode s = Inr r) \<longleftrightarrow> well_formed_utf16 s"
proof (induction s rule: well_formed_utf16.induct)
  case 1
  show ?case by simp
next
  case (2 c cs)
  show ?case
  proof (cases "uri_unreserved c")
    case True
    with 2(2) unreserved_not_surrogate [of c] show ?thesis
      by (auto split: sum.splits)
  next
    case False
    show ?thesis
    proof (cases "is_high_surrogate c")
      case high: True
      then have nl: "\<not> is_low_surrogate c"
        by (auto simp: is_high_surrogate_def is_low_surrogate_def)
      show ?thesis
      proof (cases cs)
        case Nil
        with False high nl show ?thesis by simp
      next
        case (Cons d ds)
        with False high nl 2(1) [OF high Cons] show ?thesis
          by (auto split: sum.splits)
      qed
    next
      case nh: False
      with False 2(2) [OF nh] show ?thesis
        by (auto split: sum.splits)
    qed
  qed
qed

lemma Decode_Encode: "Encode s = Inr r \<Longrightarrow> Decode r = Inr s"
proof (induction s arbitrary: r rule: Encode.induct)
  case 1
  then show ?case by simp
next
  case (2 c cs)
  show ?case
  proof (cases "uri_unreserved c")
    case True
    with 2(4) obtain r' where r': "Encode cs = Inr r'" and r: "r = c # r'"
      by (auto split: sum.splits)
    from 2(1) [OF True r'] unreserved_not_percent [OF True] show ?thesis
      by (simp add: r)
  next
    case False
    show ?thesis
    proof (cases "is_high_surrogate c")
      case high: True
      then have nl: "\<not> is_low_surrogate c"
        by (auto simp: is_high_surrogate_def is_low_surrogate_def)
      from 2(4) False nl high obtain d ds r' where cs: "cs = d # ds" and low: "is_low_surrogate d"
        and r': "Encode ds = Inr r'"
        and r: "r = escape_octets (utf8_octets (code_point_of_pair c d)) @ r'"
        by (auto split: sum.splits list.splits if_splits)
      have "Decode r' = Inr ds"
        using 2(2) [OF False nl high cs low r'] .
      moreover have "Decode r = (case Decode r' of Inl e \<Rightarrow> Inl e
                       | Inr x \<Rightarrow> Inr (utf16_encode (code_point_of_pair c d) @ x))"
        unfolding r using code_point_of_pair_range [OF high low]
        by (intro Decode_escape) simp
      ultimately show ?thesis
        by (simp add: utf16_encode_pair [OF high low] cs)
    next
      case nh: False
      show ?thesis
      proof (cases "is_low_surrogate c")
        case True
        with 2(4) False show ?thesis by simp
      next
        case nl: False
        from 2(4) False nl nh obtain r' where r': "Encode cs = Inr r'"
          and r: "r = escape_octets (utf8_octets (unat c)) @ r'"
          by (auto split: sum.splits)
        have "Decode r' = Inr cs"
          using 2(3) [OF False nl nh r'] .
        moreover have "unat c < 0xD800 \<or> (0xDFFF < unat c \<and> unat c \<le> 0x10FFFF)"
          using nl nh unat_16_bound [of c]
          by (auto simp: is_high_surrogate_def is_low_surrogate_def)
        then have "Decode r = (case Decode r' of Inl e \<Rightarrow> Inl e
                       | Inr x \<Rightarrow> Inr (utf16_encode (unat c) @ x))"
          unfolding r by (rule Decode_escape)
        ultimately show ?thesis
          by (simp add: utf16_encode_unit)
      qed
    qed
  qed
qed

lemma hex_upper_ascii: "d < 16 \<Longrightarrow> unat (hex_upper d) < 0x80"
  by (simp add: unat_hex_upper)

lemma utf8_octets_small: "cp \<le> 0x10FFFF \<Longrightarrow> \<forall>b \<in> set (utf8_octets cp). b < 256"
  using continuation_octet_small by (auto simp: utf8_octets_def)

lemma escape_octets_ascii:
  "\<forall>b \<in> set bs. b < 256 \<Longrightarrow> \<forall>c \<in> set (escape_octets bs). unat c < 0x80"
proof (induction bs)
  case Nil
  show ?case by (simp add: escape_octets_def)
next
  case (Cons b bs)
  then have b: "b < 256" and ih: "\<forall>c \<in> set (escape_octets bs). unat c < 0x80"
    by simp_all
  have "b div 16 < 16" "b mod 16 < 16"
    using b by simp_all
  then have "unat (hex_upper (b div 16)) < 0x80" "unat (hex_upper (b mod 16)) < 0x80"
    by (simp_all add: hex_upper_ascii)
  with ih show ?case
    using escape_octets_Cons [of b bs "[]"] by simp
qed

lemma escape_octets_not_Nil: "bs \<noteq> [] \<Longrightarrow> escape_octets bs \<noteq> []"
  by (cases bs) (simp_all add: escape_octets_def percent_escape_def)

lemma utf8_octets_not_Nil: "utf8_octets cp \<noteq> []"
  by (simp add: utf8_octets_def)

lemma Encode_ascii: "Encode s = Inr r \<Longrightarrow> \<forall>c \<in> set r. unat c < 0x80"
proof (induction s arbitrary: r rule: Encode.induct)
  case 1
  then show ?case by simp
next
  case (2 c cs)
  show ?case
  proof (cases "uri_unreserved c")
    case True
    with 2(4) obtain r' where r': "Encode cs = Inr r'" and r: "r = c # r'"
      by (auto split: sum.splits)
    have "unat c < 0x80"
      using True by (auto simp: uri_unreserved_def)
    with 2(1) [OF True r'] show ?thesis
      by (simp add: r)
  next
    case False
    show ?thesis
    proof (cases "is_high_surrogate c")
      case high: True
      then have nl: "\<not> is_low_surrogate c"
        by (auto simp: is_high_surrogate_def is_low_surrogate_def)
      from 2(4) False nl high obtain d ds r' where cs: "cs = d # ds" and low: "is_low_surrogate d"
        and r': "Encode ds = Inr r'"
        and r: "r = escape_octets (utf8_octets (code_point_of_pair c d)) @ r'"
        by (auto split: sum.splits list.splits if_splits)
      have "\<forall>x \<in> set (escape_octets (utf8_octets (code_point_of_pair c d))). unat x < 0x80"
        using code_point_of_pair_range(2) [OF high low]
        by (intro escape_octets_ascii utf8_octets_small)
      with 2(2) [OF False nl high cs low r'] show ?thesis
        by (auto simp: r)
    next
      case nh: False
      show ?thesis
      proof (cases "is_low_surrogate c")
        case True
        with 2(4) False show ?thesis by simp
      next
        case nl: False
        from 2(4) False nl nh obtain r' where r': "Encode cs = Inr r'"
          and r: "r = escape_octets (utf8_octets (unat c)) @ r'"
          by (auto split: sum.splits)
        have "unat c \<le> 0x10FFFF"
          using unat_16_bound [of c] by simp
        then have "\<forall>x \<in> set (escape_octets (utf8_octets (unat c))). unat x < 0x80"
          by (intro escape_octets_ascii utf8_octets_small)
        with 2(3) [OF False nl nh r'] show ?thesis
          by (auto simp: r)
      qed
    qed
  qed
qed

lemma Encode_Cons_not_Nil: "Encode (c # cs) \<noteq> Inr []"
  using escape_octets_not_Nil [OF utf8_octets_not_Nil]
  by (simp split: sum.splits list.splits)

lemma Encode_Nil: "Encode s = Inr [] \<Longrightarrow> s = []"
  using Encode_Cons_not_Nil by (cases s) auto

text \<open>
  C3. On a string \<open>s\<close> without a lone surrogate (the strings \<open>encodeURIComponent\<close>
  accepts), \<open>encodeForTransmission\<close> returns the transformed value without logging, and
  \<open>decodeFromTransmission\<close> of that value returns \<open>s\<close>, again without logging.
\<close>

theorem transmission_round_trip:
  assumes "well_formed_utf16 s"
  shows "\<exists>t. encodeForTransmission s k = (Inr t, k)
             \<and> decodeFromTransmission t k' = (Inr s, k')"
proof (cases "s = []")
  case True
  then show ?thesis
    by (simp add: encodeForTransmission_cases decodeFromTransmission_cases)
next
  case False
  from assms obtain u where u: "Encode s = Inr u"
    using Encode_succeeds_iff [of s] by blast
  have "u \<noteq> []"
    using u False Encode_Nil by blast
  have small: "\<forall>c \<in> set u. \<not> 0xFF < unat c"
    using Encode_ascii [OF u] by fastforce
  define t where "t = b64_encode (map unat u)"
  have btoa: "btoa u = Inr t"
    using small by (simp add: btoa_def t_def)
  have "t \<noteq> []"
    using \<open>u \<noteq> []\<close> by (simp add: t_def)
  have enc: "encodeForTransmission s k = (Inr t, k)"
    using False u btoa
    by (simp add: encodeForTransmission_cases encode_try_block_def encodeURIComponent_def
          js_monad_defs)
  have "atob t = Inr u"
    using btoa by (rule atob_btoa)
  moreover have "Decode u = Inr s"
    using u by (rule Decode_Encode)
  ultimately have "decodeFromTransmission t k' = (Inr s, k')"
    using \<open>t \<noteq> []\<close>
    by (simp add: decodeFromTransmission_cases decode_try_block_def decodeURIComponent_def
          js_monad_defs)
  with enc show ?thesis
    by blast
qed

lemmas encode_eval = encodeForTransmission_cases encode_try_block_def js_monad_defs
  encodeURIComponent_def uri_unreserved_def is_high_surrogate_def is_low_surrogate_def
  code_point_of_pair_def utf8_octets_def escape_octets_def percent_escape_def hex_upper_def
  btoa_def b64_char_def js_def

theorem transmission_round_trip_witness:
  "encodeForTransmission [0xE9, 0xD83D, 0xDE00] [] = (Inr (js ''JUMzJUE5JUYwJTlGJTk4JTgw''), [])
   \<and> decodeFromTransmission (js ''JUMzJUE5JUYwJTlGJTk4JTgw'') [] = (Inr [0xE9, 0xD83D, 0xDE00], [])"
proof -
  have wf: "well_formed_utf16 [0xE9, 0xD83D, 0xDE00]"
    by (simp add: is_high_surrogate_def is_low_surrogate_def)
  have enc: "encodeForTransmission [0xE9, 0xD83D, 0xDE00] []
             = (Inr (js ''JUMzJUE5JUYwJTlGJTk4JTgw''), [])"
    by (simp add: encode_eval)
  from transmission_round_trip [OF wf, of "[]" "[]"] enc show ?thesis
    by auto
qed

text \<open>
  Outside the supported strings the transform is not applied: the argument comes back
  unchanged, with one diagnostic.
\<close>

lemma Encode_error: "Encode s = Inl e \<Longrightarrow> e = URIError"
  by (induction s arbitrary: e rule: Encode.induct)
     (auto split: if_splits sum.splits list.splits)

lemma encodeForTransmission_unsupported:
  assumes "\<not> well_formed_utf16 s"
  shows "encodeForTransmission s k =
           (Inr s, k @ [(js ''[CLIENT_ENCRYPTION] Failed to encode data for transmission'',
                         URIError)])"
proof -
  from assms obtain e where "Encode s = Inl e"
    using Encode_succeeds_iff [of s] by (cases "Encode s") auto
  moreover from this have "e = URIError"
    by (rule Encode_error)
  moreover have "s \<noteq> []"
    using assms by auto
  ultimately show ?thesis
    by (simp add: encodeForTransmission_cases encode_try_block_def encodeURIComponent_def
          js_monad_defs)
qed

section \<open>Properties of captureSignatureMetadata\<close>

text \<open>
  The screen dimensions stay where a number's text is its decimal digits; the ends of
  the 32-bit range as examples.
\<close>

lemma sint_32_exact: "\<bar>sint (w :: 32 word)\<bar> < 2 ^ 53"
proof -
  have "sint w < 2 ^ 31" and "- (2 ^ 31) \<le> sint w"
    using sint_lt [of w] sint_ge [of w] by simp_all
  then show ?thesis
    by simp
qed

lemma number_to_string_extremes:
  "number_to_string (sint (0x7FFFFFFF :: 32 word)) = js ''2147483647''"
  "number_to_string (sint (0x80000000 :: 32 word)) = js ''-2147483648''"
  "number_to_string (sint (0 :: 32 word)) = js ''0''"
  by (simp_all add: number_to_string_def decimal.simps js_def)

lemma hashString_cases:
  "hashString env data k =
     (case hash_try_block env data k of
        (Inr h, k1) \<Rightarrow> (Inr h, k1)
      | (Inl e, k1) \<Rightarrow> (Inr (js ''unknown''), k1 @ [(js ''[SIGNATURE] Hash failed:'', e)]))"
  by (simp add: hashString_def js_monad_defs split: prod.splits sum.splits)

lemma hash_try_block_cases:
  "hash_try_block env data k =
     (if \<not> has_TextEncoder env then (Inl ReferenceError, k)
      else case subtle_digest env (map of_nat (utf8_encode_lossy data)) of
             Inl e \<Rightarrow> (Inl e, k)
           | Inr d \<Rightarrow> (Inr (concat (map byte_hex d)), k))"
  by (simp add: hash_try_block_def js_monad_defs Let_def split: sum.splits)

lemma capture_cases:
  "captureSignatureMetadata env sv k =
     (case hashString env (sv @ now_iso env) k of
        (Inl e, k1) \<Rightarrow> (Inl e, k1)
      | (Inr sh, k1) \<Rightarrow>
          (Inr \<lparr>timestamp = now_iso env, ipAddress = [], userAgent = navigator_userAgent env,
                screenResolution = number_to_string (sint (screen_width env)) @ js ''x''
                                   @ number_to_string (sint (screen_height env)),
                timezone = intl_timeZone env, consentGiven = True,
                signatureValue = sv, signatureHash = sh,
                deviceFingerprint = generateDeviceFingerprint env\<rparr>, k1))"
  by (simp add: captureSignatureMetadata_def js_monad_defs Let_def split: prod.splits sum.splits)

text \<open>
  C2. \<open>captureSignatureMetadata\<close> returns a record with consentGiven true, ipAddress
  empty, signatureValue the argument, timestamp the instant read from the clock, and
  userAgent, screenResolution (the decimal texts of the screen's 32-bit width and height
  around an 'x') and timezone as read from the environment. When the digest
  primitive succeeds, signatureHash is the lower-case hex text of the digest of the
  UTF-8 octets of signatureValue followed by the timestamp, and nothing is logged.
\<close>

theorem capture_record:
  "\<exists>m k'. captureSignatureMetadata env sv k = (Inr m, k')
     \<and> consentGiven m \<and> ipAddress m = [] \<and> signatureValue m = sv
     \<and> timestamp m = now_iso env
     \<and> userAgent m = navigator_userAgent env
     \<and> screenResolution m
         = number_to_string (sint (screen_width env)) @ js ''x''
           @ number_to_string (sint (screen_height env))
     \<and> timezone m = intl_timeZone env
     \<and> (\<forall>digest.
           has_TextEncoder env
           \<and> subtle_digest env (map of_nat (utf8_encode_lossy (sv @ now_iso env))) = Inr digest
           \<longrightarrow> signatureHash m = concat (map byte_hex digest) \<and> k' = k)"
  by (auto simp: capture_cases hashString_cases hash_try_block_cases split: sum.splits)

text \<open>
  C5. When the digest is unavailable (no \<open>TextEncoder\<close>) or fails with some \<open>e\<close>,
  \<open>captureSignatureMetadata\<close> still returns a record; its signatureHash is the sentinel
  'unknown', and one entry, 'Hash failed' with \<open>e\<close>, is added to the console. Nothing
  is thrown to the caller.
\<close>

theorem capture_digest_failure:
  assumes "(\<not> has_TextEncoder env \<and> e = ReferenceError)
           \<or> (has_TextEncoder env
               \<and> subtle_digest env (map of_nat (utf8_encode_lossy (sv @ now_iso env))) = Inl e)"
  shows "\<exists>m. captureSignatureMetadata env sv k
               = (Inr m, k @ [(js ''[SIGNATURE] Hash failed:'', e)])
             \<and> signatureHash m = js ''unknown''"
  using assms
  by (auto simp: capture_cases hashString_cases hash_try_block_cases split: sum.splits)

theorem capture_record_witness:
  "\<exists>m. captureSignatureMetadata
          \<lparr>now_iso = js ''2024-01-01T00:00:00.000Z'', navigator_userAgent = js ''UA'',
           screen_width = 1920, screen_height = 1080, intl_timeZone = js ''UTC'',
           navigator_language = Some (js ''en-US''), navigator_platform = None,
           timezoneOffset_text = js ''-60'', double_product_text = (\<lambda>a b. []),
           has_TextEncoder = True,
           subtle_digest = (\<lambda>bs. Inr [0xAB, 0x01])\<rparr>
          (js ''Jane Doe'') []
        = (Inr m, [])
      \<and> signatureHash m = js ''ab01'' \<and> consentGiven m \<and> ipAddress m = []
      \<and> timestamp m = js ''2024-01-01T00:00:00.000Z''
      \<and> screenResolution m = js ''1920x1080''"
proof -
  let ?env = "\<lparr>now_iso = js ''2024-01-01T00:00:00.000Z'', navigator_userAgent = js ''UA'',
           screen_width = 1920, screen_height = 1080, intl_timeZone = js ''UTC'',
           navigator_language = Some (js ''en-US''), navigator_platform = None,
           timezoneOffset_text = js ''-60'', double_product_text = (\<lambda>a b. []),
           has_TextEncoder = True,
           subtle_digest = (\<lambda>bs. Inr [0xAB, 0x01])\<rparr>"
  have hex: "concat (map byte_hex [0xAB, 0x01]) = js ''ab01''"
    by (simp add: byte_hex_def hex_lower_def js_def)
  have res: "number_to_string (sint (1920 :: 32 word)) @ js ''x''
               @ number_to_string (sint (1080 :: 32 word)) = js ''1920x1080''"
    by (simp add: number_to_string_def decimal.simps js_def)
  show ?thesis
    using capture_record [of ?env "js ''Jane Doe''" "[]"] hex res
    by fastforce
qed

theorem capture_digest_failure_witness:
  "\<exists>m. captureSignatureMetadata
          \<lparr>now_iso = js ''2024-01-01T00:00:00.000Z'', navigator_userAgent = js ''UA'',
           screen_width = 1920, screen_height = 1080, intl_timeZone = js ''UTC'',
           navigator_language = Some (js ''en-US''), navigator_platform = None,
           timezoneOffset_text = js ''-60'', double_product_text = (\<lambda>a b. []),
           has_TextEncoder = True,
           subtle_digest = (\<lambda>bs. Inl OperationError)\<rparr>
          (js ''Jane Doe'') []
        = (Inr m, [(js ''[SIGNATURE] Hash failed:'', OperationError)])
      \<and> signatureHash m = js ''unknown''"
  using capture_digest_failure
    [where env = "\<lparr>now_iso = js ''2024-01-01T00:00:00.000Z'', navigator_userAgent = js ''UA'',
           screen_width = 1920, screen_height = 1080, intl_timeZone = js ''UTC'',
           navigator_language = Some (js ''en-US''), navigator_platform = None,
           timezoneOffset_text = js ''-60'', double_product_text = (\<lambda>a b. []),
           has_TextEncoder = True,
           subtle_digest = (\<lambda>bs. Inl OperationError)\<rparr>"
       and e = OperationError and sv = "js ''Jane Doe''" and k = "[]"]
  by simp

end
